theory Spec2Isabelle
  imports Main
begin

section \<open>Scheme activation logic (engine/core/utils/scheme/scheme\_logic.ts)\<close>

text \<open>
  The sources are TypeScript compiled to Lua (Lua tables, \<open>string.format\<close>, \<open>$range\<close> and
  \<open>$fromObject\<close> throughout), where \<open>nil\<close> and \<open>false\<close> are the only values that fail a
  test: every string passes, the empty one too. Optional values (\<open>Optional<T>\<close>, a missing
  table entry, the result of \<open>?.\<close> on an absent object) are \<open>'a option\<close>; a test of such a
  value in a condition or an \<open>assert\<close> holds exactly when the value is present.

  Mutation of the registry is explicit state passing over a \<open>World\<close>. A raised assertion
  or an access through an absent table entry is a \<open>Failure\<close> value; the world is returned
  next to it, since what was written before the raise stays written. Calls into
  collaborators whose code is not part of this file (scheme implementations, object
  initialisers, engine methods of the game object) are appended, in order, to the
  \<open>calls\<close> log of the world; they are taken to return and not to touch the registry
  fields modelled here.
\<close>

subsection \<open>Types\<close>

type_synonym TSection = string
type_synonym TName = string
type_synonym TNumberId = nat
type_synonym TTimestamp = int
type_synonym Time = int
type_synonym TConditionList = string
type_synonym IConfigOverrides = "(TName \<times> string) list"
type_synonym SmartTerrain = string

text \<open>An ini file: named sections, each a list of \<open>field = value\<close> lines.\<close>

type_synonym IniFile = "(TSection \<times> (TName \<times> string) list) list"

text \<open>
  The members of \<open>EScheme\<close> named in scheme\_logic.ts; every other member of the
  enumeration (its declaration is not among the sources) is \<open>EScheme_other\<close> of its name.
\<close>

datatype EScheme =
    EScheme_NIL
  | ABUSE
  | COMBAT
  | COMBAT_IGNORE
  | CORPSE_DETECTION
  | DANGER
  | DEATH
  | GATHER_ITEMS
  | HEAR
  | HELP_WOUNDED
  | HIT
  | MEET
  | MOB_COMBAT
  | MOB_DEATH
  | PH_ON_HIT
  | REACH_TASK
  | WOUNDED
  | EScheme_other string

datatype ESchemeType = STALKER | MONSTER | OBJECT | HELICOPTER | ESchemeType_other

datatype ESchemeEvent = ACTIVATE | ESchemeEvent_other

datatype TClassId = bloodsucker_s | clsid_other nat

record GameObject =
  object_id :: TNumberId
  object_name :: TName
  object_clsid :: TClassId
  level_vertex_id :: TNumberId

record IRegistryObjectState =
  state_ini :: IniFile
  schemeType :: ESchemeType
  activeSection :: "TSection option"
  activeScheme :: "EScheme option"
  overrides :: "IConfigOverrides option"
  activationTime :: TTimestamp
  activationGameTime :: Time

record IRegistryOfflineState =
  offline_activeSection :: "TSection option"

record IBaseSchemeLogic =
  logic_name :: TName
  condlist :: TConditionList

record ISmartTerrainJob =
  job_section :: TSection

text \<open>The calls made to collaborators, with the object they are made for.\<close>

datatype Call =
    SchemeActivate TNumberId IniFile EScheme "TSection option" "TName option"
  | SchemeReset TNumberId EScheme EScheme TSection
  | UpdateObjectMapSpot TNumberId EScheme TSection
  | InitializeObjectIgnoreThreshold TNumberId EScheme TSection
  | InitializeObjectInvulnerability TNumberId
  | InitializeObjectGroup TNumberId IniFile TSection
  | InitializeObjectTakeItemsEnabledState TNumberId EScheme TSection
  | InitializeObjectCanSelectWeaponState TNumberId EScheme TSection
  | InitializeObjectInfo TNumberId IniFile TSection
  | RestrictionsActivateForObject TNumberId TSection
  | ScriptReleaseMonster TNumberId
  | SetManualInvisibility TNumberId bool
  | SetCallbackUseObjectNull TNumberId
  | SetNonscriptUsable TNumberId bool
  | SendToNearestAccessibleVertex TNumberId TNumberId
  | EmitSchemeEvent TNumberId EScheme ESchemeEvent bool

text \<open>
  The fatal outcomes. The first six are the assertions of the source:
  \<^item> \<open>LoadingFieldIsNull\<close>: "loading field is null, true || false expected";
  \<^item> \<open>NotAssignedToTerrain\<close>: "section is NIL && NPC !in smart";
  \<^item> \<open>UnresolvedScheme\<close>: "unable to determine scheme name from section name";
  \<^item> \<open>SectionDoesNotExist\<close>: "activate\_by\_section section does not exist";
  \<^item> \<open>SchemeIsNotRegistered\<close>: "Scheme is not registered";
  \<^item> \<open>NoElseClause\<close>: "'active' field has no conditionless else clause".
  The others are raised without an assertion: a field access on the absent registry
  state of an object, a method call on an absent scheme implementation, and a required
  ini field that is missing.
\<close>

datatype Failure =
    LoadingFieldIsNull
  | NotAssignedToTerrain
  | UnresolvedScheme "TSection option"
  | SectionDoesNotExist "TSection option"
  | SchemeIsNotRegistered EScheme
  | NoElseClause
  | IndexAbsentState TNumberId
  | IndexAbsentScheme EScheme
  | NonExistentStringField TSection TName

text \<open>
  \<open>registry.objects\<close>, \<open>registry.offlineObjects\<close> and the keys of \<open>registry.schemes\<close>,
  with the log of collaborator calls.
\<close>

record World =
  objects :: "TNumberId \<rightharpoonup> IRegistryObjectState"
  offlineObjects :: "TNumberId \<rightharpoonup> IRegistryOfflineState"
  schemes :: "EScheme \<Rightarrow> bool"
  calls :: "Call list"

text \<open>
  The services the file imports and whose code is not among the sources, as parameters:
  the clocks, terrain and job lookup, scheme-name derivation, override parsing and
  condition-list evaluation. \<open>getSchemeFromSection\<close> receives what the call site passes,
  which is absent when the terrain grants the object no job.
\<close>

record Env =
  time_global :: TTimestamp
  get_game_time :: Time
  getObjectTerrain :: "GameObject \<Rightarrow> SmartTerrain option"
  getTerrainJobByObjectId :: "SmartTerrain \<Rightarrow> TNumberId \<Rightarrow> ISmartTerrainJob option"
  getSchemeFromSection :: "TSection option \<Rightarrow> EScheme option"
  getObjectConfigOverrides :: "IniFile \<Rightarrow> TSection \<Rightarrow> GameObject \<Rightarrow> IConfigOverrides"
  pickSectionFromCondList :: "GameObject \<Rightarrow> TConditionList \<Rightarrow> TSection option"

subsection \<open>Constants and ini access\<close>

text \<open>
  Modelled from the spec: the constant \<open>NIL\<close> of engine/lib/constants/words is not among
  the sources; it is the string sentinel for "no active logic", distinct from an absent
  value.
\<close>

definition NIL :: TSection where
  "NIL = ''nil''"

definition section_exist :: "IniFile \<Rightarrow> TSection \<Rightarrow> bool" where
  "section_exist ini sec = (map_of ini sec \<noteq> None)"

text \<open>
  Modelled from the spec: \<open>readIniString\<close> of engine/core/utils/ini is not among the
  sources. It reads the field of the section; where the section or the field is missing
  it yields the neutral default (absent) unless the field is required, which is fatal.
\<close>

definition readIniString :: "IniFile \<Rightarrow> TSection \<Rightarrow> TName \<Rightarrow> bool \<Rightarrow> Failure + string option" where
  "readIniString ini sec field required =
     (case Option.bind (map_of ini sec) (\<lambda>fields. map_of fields field) of
        Some v \<Rightarrow> Inr (Some v)
      | None \<Rightarrow> if required then Inl (NonExistentStringField sec field) else Inr None)"

text \<open>
  Modelled from the spec: \<open>readIniConditionList\<close> of engine/core/utils/ini is not among
  the sources. It reads a conditional field of the section, absent when the field is
  not configured; the condition list stays unparsed, its evaluation being a parameter.
\<close>

definition readIniConditionList :: "IniFile \<Rightarrow> TSection \<Rightarrow> TName \<Rightarrow> IBaseSchemeLogic option" where
  "readIniConditionList ini sec field =
     map_option (\<lambda>v. \<lparr>logic_name = field, condlist = v\<rparr>)
       (Option.bind (map_of ini sec) (\<lambda>fields. map_of fields field))"

subsection \<open>Statements\<close>

type_synonym Step = "World \<Rightarrow> Failure option \<times> World"

text \<open>A sequence of statements stops at the first one that raises.\<close>

fun run :: "Step list \<Rightarrow> Step" where
  "run [] w = (None, w)"
| "run (step # steps) w =
     (case step w of
        (Some e, w') \<Rightarrow> (Some e, w')
      | (None, w') \<Rightarrow> run steps w')"

definition fail :: "Failure \<Rightarrow> Step" where
  "fail e w = (Some e, w)"

definition skip :: Step where
  "skip w = (None, w)"

definition withValue :: "Failure + 'a \<Rightarrow> ('a \<Rightarrow> Step) \<Rightarrow> Step" where
  "withValue r k w = (case r of Inl e \<Rightarrow> (Some e, w) | Inr v \<Rightarrow> k v w)"

definition call :: "Call \<Rightarrow> Step" where
  "call c w = (None, w\<lparr>calls := calls w @ [c]\<rparr>)"

text \<open>A write to fields of \<open>registry.objects.get(id)\<close>.\<close>

definition modifyState :: "TNumberId \<Rightarrow> (IRegistryObjectState \<Rightarrow> IRegistryObjectState) \<Rightarrow> Step" where
  "modifyState oid f w =
     (case objects w oid of
        None \<Rightarrow> (Some (IndexAbsentState oid), w)
      | Some state \<Rightarrow> (None, w\<lparr>objects := (objects w)(oid \<mapsto> f state)\<rparr>))"

text \<open>\<open>registry.schemes.get(target).reset(object, scheme, state, section)\<close>\<close>

definition schemeReset :: "GameObject \<Rightarrow> EScheme \<Rightarrow> EScheme \<Rightarrow> TSection \<Rightarrow> Step" where
  "schemeReset object target scheme sec w =
     (if schemes w target
      then call (SchemeReset (object_id object) target scheme sec) w
      else (Some (IndexAbsentScheme target), w))"

text \<open>\<open>registry.schemes.get(target).activate(object, ini, target, section)\<close>\<close>

definition schemeActivate :: "GameObject \<Rightarrow> IniFile \<Rightarrow> EScheme \<Rightarrow> TSection option \<Rightarrow> Step" where
  "schemeActivate object ini target sec w =
     (if schemes w target
      then call (SchemeActivate (object_id object) ini target sec None) w
      else (Some (IndexAbsentScheme target), w))"

subsection \<open>isActiveSection\<close>

definition isActiveSection :: "GameObject \<Rightarrow> TSection option \<Rightarrow> World \<Rightarrow> Failure + bool" where
  "isActiveSection object sec w =
     (case objects w (object_id object) of
        None \<Rightarrow> Inl (IndexAbsentState (object_id object))
      | Some state \<Rightarrow> Inr (sec = activeSection state))"

subsection \<open>getSectionToActivate\<close>

definition getSectionToActivate ::
  "Env \<Rightarrow> GameObject \<Rightarrow> IniFile \<Rightarrow> TSection \<Rightarrow> World \<Rightarrow> (Failure + TSection) \<times> World" where
  "getSectionToActivate env object ini sec w =
     (if \<not> section_exist ini sec then (Inr NIL, w)
      else
        let offlineObjectDescriptor = offlineObjects w (object_id object);
            sectionToRetry = Option.bind offlineObjectDescriptor offline_activeSection;
            w1 = (case offlineObjectDescriptor of
                    None \<Rightarrow> w
                  | Some descriptor \<Rightarrow>
                      (case offline_activeSection descriptor of
                         None \<Rightarrow> w
                       | Some _ \<Rightarrow>
                           w\<lparr>offlineObjects := (offlineObjects w)
                               (object_id object \<mapsto> descriptor\<lparr>offline_activeSection := None\<rparr>)\<rparr>))
        in
          case Option.bind sectionToRetry
                 (\<lambda>retry. if section_exist ini retry then Some retry else None) of
            Some retry \<Rightarrow> (Inr retry, w1)
          | None \<Rightarrow>
              (case readIniConditionList ini sec ''active'' of
                 Some activeSectionCond \<Rightarrow>
                   (case pickSectionFromCondList env object (condlist activeSectionCond) of
                      None \<Rightarrow> (Inl NoElseClause, w1)
                    | Some picked \<Rightarrow> (Inr picked, w1))
               | None \<Rightarrow> (Inr NIL, w1)))"

subsection \<open>resetObjectGenericSchemesOnSectionSwitch\<close>

definition resetObjectGenericSchemesOnSectionSwitch ::
  "GameObject \<Rightarrow> EScheme \<Rightarrow> TSection \<Rightarrow> Step" where
  "resetObjectGenericSchemesOnSectionSwitch object scheme sec w =
     (case objects w (object_id object) of
        None \<Rightarrow> (Some (IndexAbsentState (object_id object)), w)
      | Some state \<Rightarrow>
          (case schemeType state of
             STALKER \<Rightarrow>
               run [
                 schemeReset object MEET scheme sec,
                 schemeReset object HELP_WOUNDED scheme sec,
                 schemeReset object CORPSE_DETECTION scheme sec,
                 schemeReset object ABUSE scheme sec,
                 schemeReset object WOUNDED scheme sec,
                 schemeReset object DEATH scheme sec,
                 schemeReset object DANGER scheme sec,
                 schemeReset object GATHER_ITEMS scheme sec,
                 schemeReset object COMBAT_IGNORE scheme sec,
                 schemeReset object HEAR scheme sec,
                 call (UpdateObjectMapSpot (object_id object) scheme sec),
                 call (InitializeObjectIgnoreThreshold (object_id object) scheme sec),
                 call (InitializeObjectInvulnerability (object_id object)),
                 call (InitializeObjectGroup (object_id object) (state_ini state) sec),
                 call (InitializeObjectTakeItemsEnabledState (object_id object) scheme sec),
                 call (InitializeObjectCanSelectWeaponState (object_id object) scheme sec),
                 call (RestrictionsActivateForObject (object_id object) sec)
               ] w
           | MONSTER \<Rightarrow>
               run [
                 call (ScriptReleaseMonster (object_id object)),
                 (if object_clsid object = bloodsucker_s
                  then call (SetManualInvisibility (object_id object) (scheme \<noteq> EScheme_NIL))
                  else skip),
                 schemeReset object COMBAT_IGNORE scheme sec,
                 schemeReset object HEAR scheme sec,
                 call (InitializeObjectInvulnerability (object_id object)),
                 call (RestrictionsActivateForObject (object_id object) sec)
               ] w
           | OBJECT \<Rightarrow>
               run [
                 call (SetCallbackUseObjectNull (object_id object)),
                 call (SetNonscriptUsable (object_id object) True)
               ] w
           | HELICOPTER \<Rightarrow> (None, w)
           | ESchemeType_other \<Rightarrow> (None, w)))"

subsection \<open>activateSchemeBySection\<close>

text \<open>
  The registry state of the object is looked up where the source first reads or writes
  one of its fields. Where the terrain grants the object no job, the section stays
  absent: the scheme derivation receives the absent value, and since an ini file has no
  section without a name, the assertion that the section exists fails for it.
\<close>

definition activateSchemeBySection ::
  "Env \<Rightarrow> GameObject \<Rightarrow> IniFile \<Rightarrow> TSection option \<Rightarrow> TName option \<Rightarrow> bool option \<Rightarrow> Step" where
  "activateSchemeBySection env object ini sec smartTerrainName isLoading =
     (case isLoading of
        None \<Rightarrow> fail LoadingFieldIsNull
      | Some loading \<Rightarrow>
          run [
            (if \<not> loading
             then modifyState (object_id object)
                    (\<lambda>state. state\<lparr>activationTime := time_global env,
                                   activationGameTime := get_game_time env\<rparr>)
             else skip),
            (if sec = Some NIL
             then
               run [
                 modifyState (object_id object) (\<lambda>state. state\<lparr>overrides := None\<rparr>),
                 resetObjectGenericSchemesOnSectionSwitch object EScheme_NIL NIL,
                 modifyState (object_id object)
                   (\<lambda>state. state\<lparr>activeSection := None, activeScheme := None\<rparr>)
               ]
             else
               withValue
                 (case sec of
                    Some given \<Rightarrow> Inr (Some given)
                  | None \<Rightarrow>
                      (case getObjectTerrain env object of
                         None \<Rightarrow> Inl NotAssignedToTerrain
                       | Some currentSmartTerrain \<Rightarrow>
                           Inr (map_option job_section
                                  (getTerrainJobByObjectId env currentSmartTerrain
                                     (object_id object)))))
                 (\<lambda>sec.
                    case getSchemeFromSection env sec of
                      None \<Rightarrow> fail (UnresolvedScheme sec)
                    | Some scheme \<Rightarrow>
                        (case sec of
                           None \<Rightarrow> fail (SectionDoesNotExist None)
                         | Some target \<Rightarrow>
                             if \<not> section_exist ini target
                             then fail (SectionDoesNotExist (Some target))
                             else
                               run [
                                 modifyState (object_id object)
                                   (\<lambda>state. state\<lparr>overrides :=
                                      Some (getObjectConfigOverrides env ini target object)\<rparr>),
                                 resetObjectGenericSchemesOnSectionSwitch object scheme target,
                                 (\<lambda>w. if schemes w scheme then skip w
                                      else fail (SchemeIsNotRegistered scheme) w),
                                 call (SchemeActivate (object_id object) ini scheme
                                         (Some target) smartTerrainName),
                                 modifyState (object_id object)
                                   (\<lambda>state. state\<lparr>activeSection := Some target,
                                                  activeScheme := Some scheme\<rparr>),
                                 (\<lambda>w. case objects w (object_id object) of
                                        None \<Rightarrow> fail (IndexAbsentState (object_id object)) w
                                      | Some state \<Rightarrow>
                                          if schemeType state = STALKER
                                          then call (SendToNearestAccessibleVertex
                                                       (object_id object)
                                                       (level_vertex_id object)) w
                                          else skip w),
                                 call (EmitSchemeEvent (object_id object) scheme ACTIVATE loading)
                               ])))
          ])"

subsection \<open>enableObjectBaseSchemes\<close>

definition enableObjectBaseSchemes ::
  "GameObject \<Rightarrow> IniFile \<Rightarrow> ESchemeType \<Rightarrow> TSection \<Rightarrow> Step" where
  "enableObjectBaseSchemes object ini schemeType' logicsSection =
     (case schemeType' of
        STALKER \<Rightarrow>
          run [
            schemeActivate object ini DANGER (Some ''danger''),
            schemeActivate object ini GATHER_ITEMS (Some ''gather_items''),
            withValue (readIniString ini logicsSection ''on_combat'' False)
              (\<lambda>combatSection. schemeActivate object ini COMBAT combatSection),
            call (InitializeObjectInvulnerability (object_id object)),
            withValue (readIniString ini logicsSection ''info'' False)
              (\<lambda>infoSection.
                 case infoSection of
                   Some info \<Rightarrow> call (InitializeObjectInfo (object_id object) ini info)
                 | None \<Rightarrow> skip),
            withValue (readIniString ini logicsSection ''on_hit'' False)
              (\<lambda>hitSection.
                 case hitSection of
                   Some hit \<Rightarrow> schemeActivate object ini HIT (Some hit)
                 | None \<Rightarrow> skip),
            withValue (readIniString ini logicsSection ''wounded'' False)
              (\<lambda>woundedSection. schemeActivate object ini WOUNDED woundedSection),
            schemeActivate object ini ABUSE (Some logicsSection),
            schemeActivate object ini HELP_WOUNDED None,
            schemeActivate object ini CORPSE_DETECTION None,
            withValue (readIniString ini logicsSection ''meet'' False)
              (\<lambda>meetSection. schemeActivate object ini MEET meetSection),
            withValue (readIniString ini logicsSection ''on_death'' False)
              (\<lambda>deathSection. schemeActivate object ini DEATH deathSection),
            schemeActivate object ini COMBAT_IGNORE None,
            schemeActivate object ini REACH_TASK None
          ]
      | MONSTER \<Rightarrow>
          run [
            withValue (readIniString ini logicsSection ''on_combat'' False)
              (\<lambda>combatSection.
                 case combatSection of
                   Some combat \<Rightarrow> schemeActivate object ini MOB_COMBAT (Some combat)
                 | None \<Rightarrow> skip),
            withValue (readIniString ini logicsSection ''on_death'' False)
              (\<lambda>deathSection.
                 case deathSection of
                   Some death \<Rightarrow> schemeActivate object ini MOB_DEATH (Some death)
                 | None \<Rightarrow> skip),
            call (InitializeObjectInvulnerability (object_id object)),
            withValue (readIniString ini logicsSection ''on_hit'' False)
              (\<lambda>hitSection.
                 case hitSection of
                   Some hit \<Rightarrow> schemeActivate object ini HIT (Some hit)
                 | None \<Rightarrow> skip),
            schemeActivate object ini COMBAT_IGNORE None
          ]
      | OBJECT \<Rightarrow>
          withValue (readIniString ini logicsSection ''on_hit'' False)
            (\<lambda>hitSection.
               case hitSection of
                 Some hit \<Rightarrow> schemeActivate object ini PH_ON_HIT (Some hit)
               | None \<Rightarrow> skip)
      | HELICOPTER \<Rightarrow>
          withValue (readIniString ini logicsSection ''on_hit'' False)
            (\<lambda>hitSection.
               case hitSection of
                 Some hit \<Rightarrow> schemeActivate object ini HIT (Some hit)
               | None \<Rightarrow> skip)
      | ESchemeType_other \<Rightarrow> skip)"

subsection \<open>Auxiliary notions for the properties\<close>

text \<open>
  The two calls the ordering properties are about, and the calls of the generic layer
  (everything else). \<open>stampActivation\<close> is the effect of lines 120-123 on the state;
  \<open>appends P step\<close> says that the step changes nothing of the world but the log, to
  which it adds calls that satisfy \<open>P\<close>.
\<close>

fun isSchemeActivate :: "Call \<Rightarrow> bool" where
  "isSchemeActivate (SchemeActivate _ _ _ _ _) = True"
| "isSchemeActivate _ = False"

fun isEmitSchemeEvent :: "Call \<Rightarrow> bool" where
  "isEmitSchemeEvent (EmitSchemeEvent _ _ _ _) = True"
| "isEmitSchemeEvent _ = False"

definition genericCall :: "Call \<Rightarrow> bool" where
  "genericCall c = (\<not> isSchemeActivate c \<and> \<not> isEmitSchemeEvent c)"

definition stampActivation :: "Env \<Rightarrow> bool \<Rightarrow> IRegistryObjectState \<Rightarrow> IRegistryObjectState" where
  "stampActivation env loading state =
     (if loading then state
      else state\<lparr>activationTime := time_global env, activationGameTime := get_game_time env\<rparr>)"

definition appends :: "(Call \<Rightarrow> bool) \<Rightarrow> Step \<Rightarrow> bool" where
  "appends P step =
     (\<forall>w. \<exists>cs. snd (step w) = w\<lparr>calls := calls w @ cs\<rparr> \<and> list_all P cs)"

text \<open>
  The two activation timestamps of an actor, if it is registered, and the steps that
  leave them as they are.
\<close>

definition activationTimes :: "TNumberId \<Rightarrow> World \<Rightarrow> (TTimestamp \<times> Time) option" where
  "activationTimes oid w =
     map_option (\<lambda>state. (activationTime state, activationGameTime state)) (objects w oid)"

definition keepsTimes :: "TNumberId \<Rightarrow> Step \<Rightarrow> bool" where
  "keepsTimes oid step = (\<forall>w. activationTimes oid (snd (step w)) = activationTimes oid w)"




subsection \<open>A sample configuration\<close>

text \<open>
  One humanoid actor: its \<open>logic\<close> section declares \<open>walker@guard\<close> as the active
  section, \<open>logic@bare\<close> declares nothing, and the actor went offline in \<open>camper@tower\<close>.
\<close>

definition exampleObject :: GameObject where
  "exampleObject = \<lparr>object_id = 7, object_name = ''sim_default_stalker'',
     object_clsid = clsid_other 0, level_vertex_id = 42\<rparr>"

definition exampleIni :: IniFile where
  "exampleIni =
     [(''logic'', [(''active'', ''walker@guard'')]),
      (''walker@guard'', [(''on_hit'', ''hit@guard'')]),
      (''camper@tower'', []),
      (''smart_terrain_job_guard'', []),
      (''logic@bare'', [])]"

definition exampleState :: IRegistryObjectState where
  "exampleState = \<lparr>state_ini = exampleIni, schemeType = STALKER,
     activeSection = Some ''walker@guard'', activeScheme = Some (EScheme_other ''walker''),
     overrides = Some [], activationTime = 100, activationGameTime = 200\<rparr>"

definition exampleWorld :: World where
  "exampleWorld = \<lparr>objects = [7 \<mapsto> exampleState],
     offlineObjects = [7 \<mapsto> \<lparr>offline_activeSection = Some ''camper@tower''\<rparr>],
     schemes = (\<lambda>_. True), calls = []\<rparr>"

text \<open>The same world, the offline record naming a section the ini no longer has.\<close>

definition exampleWorldStale :: World where
  "exampleWorldStale = exampleWorld
     \<lparr>offlineObjects := [7 \<mapsto> \<lparr>offline_activeSection = Some ''patrol@old''\<rparr>]\<rparr>"

text \<open>The same actor before its first activation: no active section, no active scheme.\<close>

definition exampleStateUnbound :: IRegistryObjectState where
  "exampleStateUnbound = exampleState\<lparr>activeSection := None, activeScheme := None\<rparr>"

definition exampleWorldUnbound :: World where
  "exampleWorldUnbound = exampleWorld\<lparr>objects := [7 \<mapsto> exampleStateUnbound]\<rparr>"

text \<open>The same world, the actor never having been offline.\<close>

definition exampleWorldOnline :: World where
  "exampleWorldOnline = exampleWorld\<lparr>offlineObjects := Map.empty\<rparr>"

text \<open>
  Services for the sample: no smart terrain, the scheme is the section name up to
  \<open>@\<close>, a condition list picks itself.
\<close>

definition exampleEnv :: Env where
  "exampleEnv = \<lparr>time_global = 5000, get_game_time = 6000,
     getObjectTerrain = (\<lambda>_. None),
     getTerrainJobByObjectId = (\<lambda>_ _. None),
     getSchemeFromSection =
       map_option (\<lambda>s. EScheme_other (takeWhile (\<lambda>c. c \<noteq> CHR ''@'') s)),
     getObjectConfigOverrides = (\<lambda>_ _ _. []),
     pickSectionFromCondList = (\<lambda>_ c. Some c)\<rparr>"

text \<open>The same services, with a smart terrain that grants the actor a job.\<close>

definition exampleEnvTerrain :: Env where
  "exampleEnvTerrain = exampleEnv
     \<lparr>getObjectTerrain := (\<lambda>_. Some ''zat_stalker_base''),
      getTerrainJobByObjectId := (\<lambda>_ _. Some \<lparr>job_section = ''camper@tower''\<rparr>)\<rparr>"

section \<open>Auxiliary lemmas\<close>

lemma appends_skip: "appends P skip"
  unfolding appends_def skip_def
  by (intro allI exI [of _ "[]"]) simp

lemma appends_call: "P c \<Longrightarrow> appends P (call c)"
  unfolding appends_def call_def
  by (intro allI exI [of _ "[c]"]) simp

lemma appends_schemeReset:
  "P (SchemeReset (object_id object) target scheme sec) \<Longrightarrow>
   appends P (schemeReset object target scheme sec)"
  unfolding appends_def schemeReset_def call_def
proof (intro allI)
  fix w :: World
  assume p: "P (SchemeReset (object_id object) target scheme sec)"
  show "\<exists>cs. snd (if schemes w target
                  then (None, w\<lparr>calls := calls w @ [SchemeReset (object_id object) target scheme sec]\<rparr>)
                  else (Some (IndexAbsentScheme target), w)) = w\<lparr>calls := calls w @ cs\<rparr>
             \<and> list_all P cs"
  proof (cases "schemes w target")
    case True
    then show ?thesis using p
      by (intro exI [of _ "[SchemeReset (object_id object) target scheme sec]"]) simp
  next
    case False
    then show ?thesis by (intro exI [of _ "[]"]) simp
  qed
qed

lemma appends_run: "list_all (appends P) steps \<Longrightarrow> appends P (run steps)"
proof (induction steps)
  case Nil
  show ?case unfolding appends_def
    by (intro allI exI [of _ "[]"]) simp
next
  case (Cons step steps)
  then have s: "appends P step" and r: "appends P (run steps)" by simp_all
  show ?case unfolding appends_def
  proof (intro allI)
    fix w
    obtain cs where cs: "snd (step w) = w\<lparr>calls := calls w @ cs\<rparr>" "list_all P cs"
      using s unfolding appends_def by blast
    obtain ds where ds: "snd (run steps (snd (step w))) = (snd (step w))\<lparr>calls := calls (snd (step w)) @ ds\<rparr>"
        "list_all P ds"
      using r unfolding appends_def by blast
    show "\<exists>es. snd (run (step # steps) w) = w\<lparr>calls := calls w @ es\<rparr> \<and> list_all P es"
    proof (cases "step w")
      case (Pair res w1)
      show ?thesis
      proof (cases res)
        case None
        with Pair cs ds show ?thesis
          by (intro exI [of _ "cs @ ds"]) simp
      next
        case (Some e)
        with Pair cs show ?thesis
          by (intro exI [of _ cs]) simp
      qed
    qed
  qed
qed

lemma appends_reset:
  "appends genericCall (resetObjectGenericSchemesOnSectionSwitch object scheme sec)"
proof -
  have "\<exists>cs. snd (resetObjectGenericSchemesOnSectionSwitch object scheme sec w)
               = w\<lparr>calls := calls w @ cs\<rparr> \<and> list_all genericCall cs" for w
  proof (cases "objects w (object_id object)")
    case None
    then show ?thesis
      by (intro exI [of _ "[]"]) (simp add: resetObjectGenericSchemesOnSectionSwitch_def)
  next
    case (Some state)
    have other: "\<exists>cs. snd (None :: Failure option, w) = w\<lparr>calls := calls w @ cs\<rparr> \<and> list_all genericCall cs"
      by (intro exI [of _ "[]"]) simp
    show ?thesis
    proof (cases "schemeType state")
      case STALKER
      have "appends genericCall (run [
                 schemeReset object MEET scheme sec,
                 schemeReset object HELP_WOUNDED scheme sec,
                 schemeReset object CORPSE_DETECTION scheme sec,
                 schemeReset object ABUSE scheme sec,
                 schemeReset object WOUNDED scheme sec,
                 schemeReset object DEATH scheme sec,
                 schemeReset object DANGER scheme sec,
                 schemeReset object GATHER_ITEMS scheme sec,
                 schemeReset object COMBAT_IGNORE scheme sec,
                 schemeReset object HEAR scheme sec,
                 call (UpdateObjectMapSpot (object_id object) scheme sec),
                 call (InitializeObjectIgnoreThreshold (object_id object) scheme sec),
                 call (InitializeObjectInvulnerability (object_id object)),
                 call (InitializeObjectGroup (object_id object) (state_ini state) sec),
                 call (InitializeObjectTakeItemsEnabledState (object_id object) scheme sec),
                 call (InitializeObjectCanSelectWeaponState (object_id object) scheme sec),
                 call (RestrictionsActivateForObject (object_id object) sec)])"
        by (rule appends_run) (simp add: appends_schemeReset appends_call genericCall_def)
      with Some STALKER show ?thesis
        unfolding appends_def by (simp add: resetObjectGenericSchemesOnSectionSwitch_def)
    next
      case MONSTER
      have "appends genericCall (run [
                 call (ScriptReleaseMonster (object_id object)),
                 (if object_clsid object = bloodsucker_s
                  then call (SetManualInvisibility (object_id object) (scheme \<noteq> EScheme_NIL))
                  else skip),
                 schemeReset object COMBAT_IGNORE scheme sec,
                 schemeReset object HEAR scheme sec,
                 call (InitializeObjectInvulnerability (object_id object)),
                 call (RestrictionsActivateForObject (object_id object) sec)])"
        by (rule appends_run)
          (simp add: appends_schemeReset appends_call appends_skip genericCall_def)
      with Some MONSTER show ?thesis
        unfolding appends_def by (simp add: resetObjectGenericSchemesOnSectionSwitch_def)
    next
      case OBJECT
      have "appends genericCall (run [
                 call (SetCallbackUseObjectNull (object_id object)),
                 call (SetNonscriptUsable (object_id object) True)])"
        by (rule appends_run) (simp add: appends_call genericCall_def)
      with Some OBJECT show ?thesis
        unfolding appends_def by (simp add: resetObjectGenericSchemesOnSectionSwitch_def)
    next
      case HELICOPTER
      with Some other show ?thesis
        by (simp add: resetObjectGenericSchemesOnSectionSwitch_def)
    next
      case ESchemeType_other
      with Some other show ?thesis
        by (simp add: resetObjectGenericSchemesOnSectionSwitch_def)
    qed
  qed
  then show ?thesis unfolding appends_def by blast
qed

lemma reset_frame:
  assumes "resetObjectGenericSchemesOnSectionSwitch object scheme sec w = (r, w')"
  shows "\<exists>cs. w' = w\<lparr>calls := calls w @ cs\<rparr> \<and> list_all genericCall cs"
  using appends_reset [of object scheme sec] assms
  unfolding appends_def by (metis snd_conv)

lemma run_Cons_None:
  "run (step # steps) w = (None, w') \<longleftrightarrow> (\<exists>w1. step w = (None, w1) \<and> run steps w1 = (None, w'))"
  by (auto split: prod.splits option.splits)

lemma run_Nil_None: "run [] w = (None, w') \<longleftrightarrow> w' = w"
  by auto

lemma modifyState_None:
  "modifyState oid f w = (None, w') \<longleftrightarrow>
     (\<exists>state. objects w oid = Some state \<and> w' = w\<lparr>objects := (objects w)(oid \<mapsto> f state)\<rparr>)"
  by (auto simp: modifyState_def split: option.splits)



lemma activate_nil_unfold:
  "activateSchemeBySection env object ini (Some NIL) stn (Some loading) =
     run [
       (if \<not> loading
        then modifyState (object_id object)
               (\<lambda>state. state\<lparr>activationTime := time_global env,
                              activationGameTime := get_game_time env\<rparr>)
        else skip),
       run [
         modifyState (object_id object) (\<lambda>state. state\<lparr>overrides := None\<rparr>),
         resetObjectGenericSchemesOnSectionSwitch object EScheme_NIL NIL,
         modifyState (object_id object)
           (\<lambda>state. state\<lparr>activeSection := None, activeScheme := None\<rparr>)
       ]
     ]"
  by (simp add: activateSchemeBySection_def)


lemma withValue_None:
  "withValue r k w = (None, w') \<longleftrightarrow> (\<exists>v. r = Inr v \<and> k v w = (None, w'))"
  by (cases r) (simp_all add: withValue_def)

lemma stamp_step:
  assumes "(if \<not> loading
          then modifyState (object_id object)
                 (\<lambda>state. state\<lparr>activationTime := time_global env,
                                activationGameTime := get_game_time env\<rparr>)
          else skip) w = (None, w1)"
   and "objects w1 (object_id object) = Some st1"
  shows "\<exists>st. objects w (object_id object) = Some st \<and> st1 = stampActivation env loading st \<and>
      w1 = w\<lparr>objects := (objects w)(object_id object \<mapsto> stampActivation env loading st)\<rparr>"
proof (cases loading)
  case True
  with assms(1) have "w1 = w" by (simp add: skip_def)
  with assms(2) True show ?thesis by (simp add: map_upd_triv stampActivation_def)
next
  case False
  with assms show ?thesis by (auto simp: modifyState_None stampActivation_def)
qed

lemma commit_steps:
  assumes "run [
             modifyState (object_id object) (\<lambda>state. state\<lparr>overrides := Some ov\<rparr>),
             resetObjectGenericSchemesOnSectionSwitch object scheme target,
             (\<lambda>w. if schemes w scheme then skip w else fail (SchemeIsNotRegistered scheme) w),
             call (SchemeActivate (object_id object) ini scheme (Some target) stn),
             modifyState (object_id object)
               (\<lambda>state. state\<lparr>activeSection := Some target, activeScheme := Some scheme\<rparr>),
             (\<lambda>w. case objects w (object_id object) of
                    None \<Rightarrow> fail (IndexAbsentState (object_id object)) w
                  | Some state \<Rightarrow>
                      if schemeType state = STALKER
                      then call (SendToNearestAccessibleVertex (object_id object)
                                   (level_vertex_id object)) w
                      else skip w),
             call (EmitSchemeEvent (object_id object) scheme ACTIVATE loading)
           ] w1 = (None, w')"
  shows "\<exists>st1 cs.
       objects w1 (object_id object) = Some st1
     \<and> schemes w1 scheme
     \<and> list_all genericCall cs
     \<and> resetObjectGenericSchemesOnSectionSwitch object scheme target
          (w1\<lparr>objects := (objects w1)(object_id object \<mapsto> st1\<lparr>overrides := Some ov\<rparr>)\<rparr>)
         = (None, w1\<lparr>objects := (objects w1)(object_id object \<mapsto> st1\<lparr>overrides := Some ov\<rparr>),
                     calls := calls w1 @ cs\<rparr>)
     \<and> w' = w1\<lparr>objects := (objects w1)(object_id object \<mapsto>
                  st1\<lparr>overrides := Some ov, activeSection := Some target,
                      activeScheme := Some scheme\<rparr>),
                calls := calls w1 @ cs @
                  [SchemeActivate (object_id object) ini scheme (Some target) stn] @
                  (if schemeType st1 = STALKER
                   then [SendToNearestAccessibleVertex (object_id object) (level_vertex_id object)]
                   else []) @
                  [EmitSchemeEvent (object_id object) scheme ACTIVATE loading]\<rparr>"
proof -
  from assms obtain w2 w3 w4 w5 w6 w7 where
    s2: "modifyState (object_id object) (\<lambda>state. state\<lparr>overrides := Some ov\<rparr>) w1 = (None, w2)"
    and s3: "resetObjectGenericSchemesOnSectionSwitch object scheme target w2 = (None, w3)"
    and s4: "(if schemes w3 scheme then skip w3 else fail (SchemeIsNotRegistered scheme) w3)
               = (None, w4)"
    and s5: "call (SchemeActivate (object_id object) ini scheme (Some target) stn) w4 = (None, w5)"
    and s6: "modifyState (object_id object)
               (\<lambda>state. state\<lparr>activeSection := Some target, activeScheme := Some scheme\<rparr>) w5
               = (None, w6)"
    and s7: "(case objects w6 (object_id object) of
                    None \<Rightarrow> fail (IndexAbsentState (object_id object)) w6
                  | Some state \<Rightarrow>
                      if schemeType state = STALKER
                      then call (SendToNearestAccessibleVertex (object_id object)
                                   (level_vertex_id object)) w6
                      else skip w6) = (None, w7)"
    and s8: "call (EmitSchemeEvent (object_id object) scheme ACTIVATE loading) w7 = (None, w')"
    unfolding run_Cons_None run_Nil_None by blast
  from s2 obtain st1 where st1: "objects w1 (object_id object) = Some st1"
      and w2: "w2 = w1\<lparr>objects := (objects w1)(object_id object \<mapsto> st1\<lparr>overrides := Some ov\<rparr>)\<rparr>"
    unfolding modifyState_None by blast
  from reset_frame [OF s3] obtain cs where w3: "w3 = w2\<lparr>calls := calls w2 @ cs\<rparr>"
      and cs: "list_all genericCall cs" by blast
  from s4 have reg: "schemes w3 scheme" and w4: "w4 = w3"
    by (auto simp: skip_def fail_def split: if_splits)
  from s5 have w5: "w5 = w4\<lparr>calls := calls w4 @
      [SchemeActivate (object_id object) ini scheme (Some target) stn]\<rparr>"
    by (simp add: call_def)
  from s6 obtain st5 where st5: "objects w5 (object_id object) = Some st5"
     and w6: "w6 = w5\<lparr>objects := (objects w5)(object_id object \<mapsto>
      st5\<lparr>activeSection := Some target, activeScheme := Some scheme\<rparr>)\<rparr>"
    unfolding modifyState_None by blast
  have st5': "st5 = st1\<lparr>overrides := Some ov\<rparr>"
    using st5 by (simp add: w5 w4 w3 w2)
  have w7: "w7 = w6\<lparr>calls := calls w6 @
      (if schemeType st1 = STALKER
       then [SendToNearestAccessibleVertex (object_id object) (level_vertex_id object)]
       else [])\<rparr>"
    using s7 by (simp add: w6 st5' call_def skip_def split: if_splits)
  from s8 have w': "w' = w7\<lparr>calls := calls w7 @
      [EmitSchemeEvent (object_id object) scheme ACTIVATE loading]\<rparr>"
    by (simp add: call_def)
  have reg1: "schemes w1 scheme" using reg by (simp add: w3 w2)
  have r: "resetObjectGenericSchemesOnSectionSwitch object scheme target
          (w1\<lparr>objects := (objects w1)(object_id object \<mapsto> st1\<lparr>overrides := Some ov\<rparr>)\<rparr>)
         = (None, w1\<lparr>objects := (objects w1)(object_id object \<mapsto> st1\<lparr>overrides := Some ov\<rparr>),
                     calls := calls w1 @ cs\<rparr>)"
    using s3 by (simp add: w3 w2)
  have e: "w' = w1\<lparr>objects := (objects w1)(object_id object \<mapsto>
                  st1\<lparr>overrides := Some ov, activeSection := Some target,
                      activeScheme := Some scheme\<rparr>),
                calls := calls w1 @ cs @
                  [SchemeActivate (object_id object) ini scheme (Some target) stn] @
                  (if schemeType st1 = STALKER
                   then [SendToNearestAccessibleVertex (object_id object) (level_vertex_id object)]
                   else []) @
                  [EmitSchemeEvent (object_id object) scheme ACTIVATE loading]\<rparr>"
    by (simp add: w' w7 w6 st5' w5 w4 w3 w2)
  from st1 reg1 cs r e show ?thesis by blast
qed

lemma activate_section_unfold:
  "sec \<noteq> Some NIL \<Longrightarrow>
   activateSchemeBySection env object ini sec stn (Some loading) =
     run [
       (if \<not> loading
        then modifyState (object_id object)
               (\<lambda>state. state\<lparr>activationTime := time_global env,
                              activationGameTime := get_game_time env\<rparr>)
        else skip),
       withValue
         (case sec of
            Some given \<Rightarrow> Inr (Some given)
          | None \<Rightarrow>
              (case getObjectTerrain env object of
                 None \<Rightarrow> Inl NotAssignedToTerrain
               | Some currentSmartTerrain \<Rightarrow>
                   Inr (map_option job_section
                          (getTerrainJobByObjectId env currentSmartTerrain (object_id object)))))
         (\<lambda>sec.
            case getSchemeFromSection env sec of
              None \<Rightarrow> fail (UnresolvedScheme sec)
            | Some scheme \<Rightarrow>
                (case sec of
                   None \<Rightarrow> fail (SectionDoesNotExist None)
                 | Some target \<Rightarrow>
                     if \<not> section_exist ini target
                     then fail (SectionDoesNotExist (Some target))
                     else
                       run [
                         modifyState (object_id object)
                           (\<lambda>state. state\<lparr>overrides :=
                              Some (getObjectConfigOverrides env ini target object)\<rparr>),
                         resetObjectGenericSchemesOnSectionSwitch object scheme target,
                         (\<lambda>w. if schemes w scheme then skip w
                              else fail (SchemeIsNotRegistered scheme) w),
                         call (SchemeActivate (object_id object) ini scheme
                                 (Some target) stn),
                         modifyState (object_id object)
                           (\<lambda>state. state\<lparr>activeSection := Some target,
                                          activeScheme := Some scheme\<rparr>),
                         (\<lambda>w. case objects w (object_id object) of
                                None \<Rightarrow> fail (IndexAbsentState (object_id object)) w
                              | Some state \<Rightarrow>
                                  if schemeType state = STALKER
                                  then call (SendToNearestAccessibleVertex
                                               (object_id object)
                                               (level_vertex_id object)) w
                                  else skip w),
                         call (EmitSchemeEvent (object_id object) scheme ACTIVATE loading)
                       ]))
     ]"
  by (simp add: activateSchemeBySection_def)

lemma activate_section_completed:
  assumes "activateSchemeBySection env object ini sec stn isLoading w = (None, w')"
    and "sec \<noteq> Some NIL"
  shows "\<exists>loading st target scheme cs.
       isLoading = Some loading
     \<and> objects w (object_id object) = Some st
     \<and> (sec = Some target
        \<or> sec = None \<and>
          (\<exists>terrain job. getObjectTerrain env object = Some terrain
             \<and> getTerrainJobByObjectId env terrain (object_id object) = Some job
             \<and> job_section job = target))
     \<and> getSchemeFromSection env (Some target) = Some scheme
     \<and> section_exist ini target
     \<and> schemes w scheme
     \<and> list_all genericCall cs
     \<and> resetObjectGenericSchemesOnSectionSwitch object scheme target
          (w\<lparr>objects := (objects w)(object_id object \<mapsto>
               (stampActivation env loading st)
                 \<lparr>overrides := Some (getObjectConfigOverrides env ini target object)\<rparr>)\<rparr>)
         = (None,
            w\<lparr>objects := (objects w)(object_id object \<mapsto>
                 (stampActivation env loading st)
                   \<lparr>overrides := Some (getObjectConfigOverrides env ini target object)\<rparr>),
              calls := calls w @ cs\<rparr>)
     \<and> w' = w\<lparr>objects := (objects w)(object_id object \<mapsto>
                  (stampActivation env loading st)
                    \<lparr>overrides := Some (getObjectConfigOverrides env ini target object),
                     activeSection := Some target, activeScheme := Some scheme\<rparr>),
                calls := calls w @ cs @
                  [SchemeActivate (object_id object) ini scheme (Some target) stn] @
                  (if schemeType st = STALKER
                   then [SendToNearestAccessibleVertex (object_id object) (level_vertex_id object)]
                   else []) @
                  [EmitSchemeEvent (object_id object) scheme ACTIVATE loading]\<rparr>"
proof -
  obtain loading where l: "isLoading = Some loading"
    using assms(1) by (cases isLoading) (auto simp: activateSchemeBySection_def fail_def)
  from assms(1) obtain w1 v where
    s1: "(if \<not> loading
          then modifyState (object_id object)
                 (\<lambda>state. state\<lparr>activationTime := time_global env,
                                activationGameTime := get_game_time env\<rparr>)
          else skip) w = (None, w1)"
    and rv: "(case sec of
            Some given \<Rightarrow> Inr (Some given)
          | None \<Rightarrow>
              (case getObjectTerrain env object of
                 None \<Rightarrow> Inl NotAssignedToTerrain
               | Some currentSmartTerrain \<Rightarrow>
                   Inr (map_option job_section
                          (getTerrainJobByObjectId env currentSmartTerrain (object_id object)))))
           = Inr v"
    and k: "(case getSchemeFromSection env v of
              None \<Rightarrow> fail (UnresolvedScheme v)
            | Some scheme \<Rightarrow>
                (case v of
                   None \<Rightarrow> fail (SectionDoesNotExist None)
                 | Some target \<Rightarrow>
                     if \<not> section_exist ini target
                     then fail (SectionDoesNotExist (Some target))
                     else
                       run [
                         modifyState (object_id object)
                           (\<lambda>state. state\<lparr>overrides :=
                              Some (getObjectConfigOverrides env ini target object)\<rparr>),
                         resetObjectGenericSchemesOnSectionSwitch object scheme target,
                         (\<lambda>w. if schemes w scheme then skip w
                              else fail (SchemeIsNotRegistered scheme) w),
                         call (SchemeActivate (object_id object) ini scheme
                                 (Some target) stn),
                         modifyState (object_id object)
                           (\<lambda>state. state\<lparr>activeSection := Some target,
                                          activeScheme := Some scheme\<rparr>),
                         (\<lambda>w. case objects w (object_id object) of
                                None \<Rightarrow> fail (IndexAbsentState (object_id object)) w
                              | Some state \<Rightarrow>
                                  if schemeType state = STALKER
                                  then call (SendToNearestAccessibleVertex
                                               (object_id object)
                                               (level_vertex_id object)) w
                                  else skip w),
                         call (EmitSchemeEvent (object_id object) scheme ACTIVATE loading)
                       ])) w1 = (None, w')"
    unfolding l activate_section_unfold [OF assms(2)] run_Cons_None run_Nil_None withValue_None
    by blast
  obtain scheme where sc: "getSchemeFromSection env v = Some scheme"
    using k by (cases "getSchemeFromSection env v") (simp_all add: fail_def)
  obtain target where v: "v = Some target"
    using k sc by (cases v) (simp_all add: fail_def)
  have ex: "section_exist ini target"
    using k sc v by (cases "section_exist ini target") (simp_all add: fail_def)
  from k sc v ex commit_steps [of object "getObjectConfigOverrides env ini target object"
      scheme target ini stn loading w1 w']
  obtain st1 cs where st1: "objects w1 (object_id object) = Some st1"
    and reg: "schemes w1 scheme"
    and cs: "list_all genericCall cs"
    and r: "resetObjectGenericSchemesOnSectionSwitch object scheme target
          (w1\<lparr>objects := (objects w1)(object_id object \<mapsto>
             st1\<lparr>overrides := Some (getObjectConfigOverrides env ini target object)\<rparr>)\<rparr>)
         = (None, w1\<lparr>objects := (objects w1)(object_id object \<mapsto>
             st1\<lparr>overrides := Some (getObjectConfigOverrides env ini target object)\<rparr>),
                     calls := calls w1 @ cs\<rparr>)"
    and e: "w' = w1\<lparr>objects := (objects w1)(object_id object \<mapsto>
                  st1\<lparr>overrides := Some (getObjectConfigOverrides env ini target object),
                      activeSection := Some target, activeScheme := Some scheme\<rparr>),
                calls := calls w1 @ cs @
                  [SchemeActivate (object_id object) ini scheme (Some target) stn] @
                  (if schemeType st1 = STALKER
                   then [SendToNearestAccessibleVertex (object_id object) (level_vertex_id object)]
                   else []) @
                  [EmitSchemeEvent (object_id object) scheme ACTIVATE loading]\<rparr>"
    by auto
  from stamp_step [OF s1 st1] obtain st where st: "objects w (object_id object) = Some st"
    and st1': "st1 = stampActivation env loading st"
    and w1: "w1 = w\<lparr>objects := (objects w)(object_id object \<mapsto> stampActivation env loading st)\<rparr>"
    by blast
  have ty: "schemeType (stampActivation env loading st) = schemeType st"
    by (simp add: stampActivation_def)
  have res: "sec = Some target
        \<or> sec = None \<and>
          (\<exists>terrain job. getObjectTerrain env object = Some terrain
             \<and> getTerrainJobByObjectId env terrain (object_id object) = Some job
             \<and> job_section job = target)"
    using rv v by (auto split: option.splits)
  have reg': "schemes w scheme" using reg by (simp add: w1)
  have r': "resetObjectGenericSchemesOnSectionSwitch object scheme target
          (w\<lparr>objects := (objects w)(object_id object \<mapsto>
               (stampActivation env loading st)
                 \<lparr>overrides := Some (getObjectConfigOverrides env ini target object)\<rparr>)\<rparr>)
         = (None,
            w\<lparr>objects := (objects w)(object_id object \<mapsto>
                 (stampActivation env loading st)
                   \<lparr>overrides := Some (getObjectConfigOverrides env ini target object)\<rparr>),
              calls := calls w @ cs\<rparr>)"
    using r by (simp add: w1 st1')
  have e': "w' = w\<lparr>objects := (objects w)(object_id object \<mapsto>
                  (stampActivation env loading st)
                    \<lparr>overrides := Some (getObjectConfigOverrides env ini target object),
                     activeSection := Some target, activeScheme := Some scheme\<rparr>),
                calls := calls w @ cs @
                  [SchemeActivate (object_id object) ini scheme (Some target) stn] @
                  (if schemeType st = STALKER
                   then [SendToNearestAccessibleVertex (object_id object) (level_vertex_id object)]
                   else []) @
                  [EmitSchemeEvent (object_id object) scheme ACTIVATE loading]\<rparr>"
    using e ty by (simp add: w1 st1')
  from l st res sc [unfolded v] ex reg' cs r' e' show ?thesis by blast
qed

lemma activate_nil_completed:
  assumes "activateSchemeBySection env object ini (Some NIL) stn isLoading w = (None, w')"
  shows "\<exists>loading st cs.
     isLoading = Some loading
   \<and> objects w (object_id object) = Some st
   \<and> list_all genericCall cs
   \<and> resetObjectGenericSchemesOnSectionSwitch object EScheme_NIL NIL
        (w\<lparr>objects := (objects w)(object_id object \<mapsto>
            (stampActivation env loading st)\<lparr>overrides := None\<rparr>)\<rparr>)
       = (None,
          w\<lparr>objects := (objects w)(object_id object \<mapsto>
               (stampActivation env loading st)\<lparr>overrides := None\<rparr>),
            calls := calls w @ cs\<rparr>)
   \<and> w' = w\<lparr>objects := (objects w)(object_id object \<mapsto>
               (stampActivation env loading st)
               \<lparr>overrides := None, activeSection := None, activeScheme := None\<rparr>),
             calls := calls w @ cs\<rparr>"
proof -
  obtain loading where l: "isLoading = Some loading"
    using assms by (cases isLoading) (auto simp: activateSchemeBySection_def fail_def)
  from assms l obtain w1 w2 w3 where
    s1: "(if \<not> loading
          then modifyState (object_id object)
                 (\<lambda>state. state\<lparr>activationTime := time_global env,
                                activationGameTime := get_game_time env\<rparr>)
          else skip) w = (None, w1)"
    and s2: "modifyState (object_id object) (\<lambda>state. state\<lparr>overrides := None\<rparr>) w1 = (None, w2)"
    and s3: "resetObjectGenericSchemesOnSectionSwitch object EScheme_NIL NIL w2 = (None, w3)"
    and s4: "modifyState (object_id object)
               (\<lambda>state. state\<lparr>activeSection := None, activeScheme := None\<rparr>) w3 = (None, w')"
    unfolding l activate_nil_unfold run_Cons_None run_Nil_None by blast
  from s2 obtain st1 where st1: "objects w1 (object_id object) = Some st1"
      and w2: "w2 = w1\<lparr>objects := (objects w1)(object_id object \<mapsto> st1\<lparr>overrides := None\<rparr>)\<rparr>"
    unfolding modifyState_None by blast
  from stamp_step [OF s1 st1] obtain st where st: "objects w (object_id object) = Some st"
      and st1': "st1 = stampActivation env loading st"
      and w1: "w1 = w\<lparr>objects := (objects w)(object_id object \<mapsto> stampActivation env loading st)\<rparr>"
    by blast
  from reset_frame [OF s3] obtain cs where w3: "w3 = w2\<lparr>calls := calls w2 @ cs\<rparr>"
      and cs: "list_all genericCall cs" by blast
  from s4 obtain st3 where st3: "objects w3 (object_id object) = Some st3"
     and w': "w' = w3\<lparr>objects := (objects w3)(object_id object \<mapsto>
      st3\<lparr>activeSection := None, activeScheme := None\<rparr>)\<rparr>"
    unfolding modifyState_None by blast
  have st3': "st3 = st1\<lparr>overrides := None\<rparr>"
    using st3 by (simp add: w3 w2)
  have r: "resetObjectGenericSchemesOnSectionSwitch object EScheme_NIL NIL
        (w\<lparr>objects := (objects w)(object_id object \<mapsto>
            (stampActivation env loading st)\<lparr>overrides := None\<rparr>)\<rparr>)
       = (None,
          w\<lparr>objects := (objects w)(object_id object \<mapsto>
               (stampActivation env loading st)\<lparr>overrides := None\<rparr>),
            calls := calls w @ cs\<rparr>)"
    using s3 by (simp add: w3 w2 w1 st1')
  have e: "w' = w\<lparr>objects := (objects w)(object_id object \<mapsto>
               (stampActivation env loading st)
               \<lparr>overrides := None, activeSection := None, activeScheme := None\<rparr>),
             calls := calls w @ cs\<rparr>"
    by (simp add: w' st3' w3 w2 w1 st1')
  from l st cs r e show ?thesis by blast
qed

lemma keeps_skip: "keepsTimes oid skip"
  by (simp add: keepsTimes_def skip_def)

lemma keeps_fail: "keepsTimes oid (fail e)"
  by (simp add: keepsTimes_def fail_def)

lemma keeps_call: "keepsTimes oid (call c)"
  by (simp add: keepsTimes_def call_def activationTimes_def)

lemma keeps_appends: "appends P step \<Longrightarrow> keepsTimes oid step"
  unfolding keepsTimes_def appends_def activationTimes_def
proof (intro allI)
  fix w :: World
  assume a: "\<forall>w. \<exists>cs. snd (step w) = w\<lparr>calls := calls w @ cs\<rparr> \<and> list_all P cs"
  then obtain cs where "snd (step w) = w\<lparr>calls := calls w @ cs\<rparr>" by blast
  then show "map_option (\<lambda>state. (activationTime state, activationGameTime state))
               (objects (snd (step w)) oid)
             = map_option (\<lambda>state. (activationTime state, activationGameTime state))
               (objects w oid)"
    by simp
qed

lemma keeps_modifyState:
  assumes "\<And>state. activationTime (f state) = activationTime state"
    and "\<And>state. activationGameTime (f state) = activationGameTime state"
  shows "keepsTimes oid (modifyState other f)"
  unfolding keepsTimes_def
proof (intro allI)
  fix w :: World
  show "activationTimes oid (snd (modifyState other f w)) = activationTimes oid w"
    using assms by (cases "objects w other") (auto simp: modifyState_def activationTimes_def)
qed

lemma keeps_withValue: "(\<And>v. keepsTimes oid (k v)) \<Longrightarrow> keepsTimes oid (withValue r k)"
  by (cases r) (simp_all add: keepsTimes_def withValue_def)

lemma keeps_run: "list_all (keepsTimes oid) steps \<Longrightarrow> keepsTimes oid (run steps)"
proof (induction steps)
  case Nil
  show ?case by (simp add: keepsTimes_def)
next
  case (Cons step steps)
  then have s: "keepsTimes oid step" and r: "keepsTimes oid (run steps)" by simp_all
  show ?case unfolding keepsTimes_def
  proof (intro allI)
    fix w :: World
    show "activationTimes oid (snd (run (step # steps) w)) = activationTimes oid w"
    proof (cases "step w")
      case (Pair res w1)
      with s have w1: "activationTimes oid w1 = activationTimes oid w"
        unfolding keepsTimes_def by (metis snd_conv)
      show ?thesis
      proof (cases res)
        case None
        with Pair r w1 show ?thesis unfolding keepsTimes_def by simp
      next
        case (Some e)
        with Pair w1 show ?thesis by simp
      qed
    qed
  qed
qed

lemma keeps_registered: "keepsTimes oid (\<lambda>w. if schemes w scheme then skip w else fail e w)"
  by (simp add: keepsTimes_def skip_def fail_def)

lemma keeps_vertex:
  "keepsTimes oid (\<lambda>w. case objects w other of
                          None \<Rightarrow> fail e w
                        | Some state \<Rightarrow> if schemeType state = STALKER then call c w else skip w)"
  by (simp add: keepsTimes_def skip_def fail_def call_def activationTimes_def split: option.splits)

lemma run_pair_keeps:
  "keepsTimes oid b \<Longrightarrow>
   activationTimes oid (snd (run [a, b] w)) = activationTimes oid (snd (a w))"
proof -
  assume k: "keepsTimes oid b"
  obtain res w1 where a: "a w = (res, w1)" by (cases "a w")
  obtain res2 w2 where b: "b w1 = (res2, w2)" by (cases "b w1")
  from k have "activationTimes oid (snd (b w1)) = activationTimes oid w1"
    unfolding keepsTimes_def by blast
  with b have "activationTimes oid w2 = activationTimes oid w1" by simp
  with a b show ?thesis by (cases res; cases res2) simp_all
qed

lemma stamp_times:
  assumes "objects w (object_id object) = Some state"
  shows "activationTimes (object_id object)
           (snd ((if \<not> loading
                  then modifyState (object_id object)
                         (\<lambda>state. state\<lparr>activationTime := time_global env,
                                        activationGameTime := get_game_time env\<rparr>)
                  else skip) w))
         = (if loading then Some (activationTime state, activationGameTime state)
            else Some (time_global env, get_game_time env))"
  using assms by (simp add: modifyState_def skip_def activationTimes_def)

lemma stamp_calls:
  "calls (snd ((if \<not> loading
                  then modifyState (object_id object)
                         (\<lambda>state. state\<lparr>activationTime := time_global env,
                                        activationGameTime := get_game_time env\<rparr>)
                  else skip) w)) = calls w"
  by (cases "objects w (object_id object)") (simp_all add: modifyState_def skip_def)


lemma run_Cons_Some:
  "run (step # steps) w = (Some e, w') \<longleftrightarrow>
     step w = (Some e, w') \<or> (\<exists>w1. step w = (None, w1) \<and> run steps w1 = (Some e, w'))"
  by (auto split: prod.splits option.splits)

lemma run_Nil_Some: "run [] w = (Some e, w') \<longleftrightarrow> False"
  by simp


lemma commit_steps_failed:
  assumes "run [
             modifyState (object_id object) (\<lambda>state. state\<lparr>overrides := Some ov\<rparr>),
             resetObjectGenericSchemesOnSectionSwitch object scheme target,
             (\<lambda>w. if schemes w scheme then skip w else fail (SchemeIsNotRegistered scheme) w),
             call (SchemeActivate (object_id object) ini scheme (Some target) stn),
             modifyState (object_id object)
               (\<lambda>state. state\<lparr>activeSection := Some target, activeScheme := Some scheme\<rparr>),
             (\<lambda>w. case objects w (object_id object) of
                    None \<Rightarrow> fail (IndexAbsentState (object_id object)) w
                  | Some state \<Rightarrow>
                      if schemeType state = STALKER
                      then call (SendToNearestAccessibleVertex (object_id object)
                                   (level_vertex_id object)) w
                      else skip w),
             call (EmitSchemeEvent (object_id object) scheme ACTIVATE loading)
           ] w1 = (Some e, w')"
  shows "\<exists>cs. calls w' = calls w1 @ cs \<and> list_all genericCall cs"
proof (cases "objects w1 (object_id object)")
  case None
  with assms have "w' = w1" by (simp add: modifyState_def)
  then show ?thesis by (intro exI [of _ "[]"]) simp
next
  case (Some st1)
  define w2 where "w2 = w1\<lparr>objects := (objects w1)(object_id object \<mapsto> st1\<lparr>overrides := Some ov\<rparr>)\<rparr>"
  obtain r3 w3 where r: "resetObjectGenericSchemesOnSectionSwitch object scheme target w2 = (r3, w3)"
    by (cases "resetObjectGenericSchemesOnSectionSwitch object scheme target w2")
  from reset_frame [OF r] obtain cs where w3: "w3 = w2\<lparr>calls := calls w2 @ cs\<rparr>"
    and cs: "list_all genericCall cs" by blast
  have c2: "calls w2 = calls w1" by (simp add: w2_def)
  have o3: "objects w3 (object_id object) = Some (st1\<lparr>overrides := Some ov\<rparr>)"
    by (simp add: w3 w2_def)
  show ?thesis
  proof (cases r3)
    case (Some e3)
    with assms \<open>objects w1 (object_id object) = Some st1\<close> r have "w' = w3"
      by (simp add: modifyState_def w2_def)
    with w3 c2 cs show ?thesis by (intro exI [of _ cs]) simp
  next
    case None
    show ?thesis
    proof (cases "schemes w3 scheme")
      case False
      with assms \<open>objects w1 (object_id object) = Some st1\<close> r None have "w' = w3"
        by (simp add: modifyState_def w2_def fail_def)
      with w3 c2 cs show ?thesis by (intro exI [of _ cs]) simp
    next
      case True
      with assms \<open>objects w1 (object_id object) = Some st1\<close> r None o3 show ?thesis
        by (simp add: modifyState_def w2_def [symmetric] skip_def call_def split: if_splits)
    qed
  qed
qed

lemma withValue_Some:
  "withValue r k w = (Some e, w') \<longleftrightarrow>
     (r = Inl e \<and> w' = w) \<or> (\<exists>v. r = Inr v \<and> k v w = (Some e, w'))"
  by (cases r) (auto simp: withValue_def)

lemma activate_section_failed:
  assumes "activateSchemeBySection env object ini sec stn isLoading w = (Some e, w')"
    and "sec \<noteq> Some NIL"
  shows "\<exists>cs. calls w' = calls w @ cs \<and> list_all genericCall cs"
proof (cases isLoading)
  case None
  with assms have "w' = w" by (simp add: activateSchemeBySection_def fail_def)
  then show ?thesis by (intro exI [of _ "[]"]) simp
next
  case (Some loading)
  let ?stamp = "(if \<not> loading
          then modifyState (object_id object)
                 (\<lambda>state. state\<lparr>activationTime := time_global env,
                                activationGameTime := get_game_time env\<rparr>)
          else skip)"
  have same: "calls w' = calls w \<Longrightarrow> ?thesis"
    by (intro exI [of _ "[]"]) simp
  from assms(1) consider
      (a) "?stamp w = (Some e, w')"
    | (b) w1 where "?stamp w = (None, w1)" "w' = w1"
    | (c) w1 v where "?stamp w = (None, w1)"
        "(case getSchemeFromSection env v of
              None \<Rightarrow> fail (UnresolvedScheme v)
            | Some scheme \<Rightarrow>
                (case v of
                   None \<Rightarrow> fail (SectionDoesNotExist None)
                 | Some target \<Rightarrow>
                     if \<not> section_exist ini target
                     then fail (SectionDoesNotExist (Some target))
                     else
                       run [
                         modifyState (object_id object)
                           (\<lambda>state. state\<lparr>overrides :=
                              Some (getObjectConfigOverrides env ini target object)\<rparr>),
                         resetObjectGenericSchemesOnSectionSwitch object scheme target,
                         (\<lambda>w. if schemes w scheme then skip w
                              else fail (SchemeIsNotRegistered scheme) w),
                         call (SchemeActivate (object_id object) ini scheme
                                 (Some target) stn),
                         modifyState (object_id object)
                           (\<lambda>state. state\<lparr>activeSection := Some target,
                                          activeScheme := Some scheme\<rparr>),
                         (\<lambda>w. case objects w (object_id object) of
                                None \<Rightarrow> fail (IndexAbsentState (object_id object)) w
                              | Some state \<Rightarrow>
                                  if schemeType state = STALKER
                                  then call (SendToNearestAccessibleVertex
                                               (object_id object)
                                               (level_vertex_id object)) w
                                  else skip w),
                         call (EmitSchemeEvent (object_id object) scheme ACTIVATE loading)
                       ])) w1 = (Some e, w')"
    unfolding Some activate_section_unfold [OF assms(2)] run_Cons_Some run_Cons_None
      run_Nil_None run_Nil_Some withValue_Some
    by blast
  then show ?thesis
  proof cases
    case a
    then show ?thesis using stamp_calls [of loading object env w] same by simp
  next
    case b
    then show ?thesis using stamp_calls [of loading object env w] same by simp
  next
    case c
    have c1: "calls w1 = calls w"
      using c(1) stamp_calls [of loading object env w] by simp
    show ?thesis
    proof (cases "getSchemeFromSection env v")
      case None
      with c(2) c1 same show ?thesis by (simp add: fail_def)
    next
      case sc: (Some scheme)
      show ?thesis
      proof (cases v)
        case None
        with c(2) sc c1 same show ?thesis by (simp add: fail_def)
      next
        case tg: (Some target)
        show ?thesis
        proof (cases "section_exist ini target")
          case False
          with c(2) sc tg c1 same show ?thesis by (simp add: fail_def)
        next
          case True
          with c(2) sc tg
            commit_steps_failed [of object "getObjectConfigOverrides env ini target object"
              scheme target ini stn loading w1 e w']
          show ?thesis unfolding c1 by simp
        qed
      qed
    qed
  qed
qed



















section \<open>Properties of section resolution\<close>

text \<open>
  C10. Where the ini file has no section of the desired name, \<open>getSectionToActivate\<close>
  returns the NIL sentinel at once and leaves the world as it was: the offline record
  of the actor is not consulted, and a section recorded there stays recorded.
\<close>

theorem getSectionToActivate_missing_section:
  "\<not> section_exist ini sec \<Longrightarrow> getSectionToActivate env object ini sec w = (Inr NIL, w)"
  by (simp add: getSectionToActivate_def)

theorem getSectionToActivate_missing_section_witness:
  "\<not> section_exist exampleIni ''sleeper@night''
   \<and> getSectionToActivate exampleEnv exampleObject exampleIni ''sleeper@night'' exampleWorld
       = (Inr NIL, exampleWorld)
   \<and> offlineObjects exampleWorld 7 = Some \<lparr>offline_activeSection = Some ''camper@tower''\<rparr>"
proof -
  have h: "\<not> section_exist exampleIni ''sleeper@night''"
    by (simp add: section_exist_def exampleIni_def)
  show ?thesis
    using h getSectionToActivate_missing_section [OF h, of exampleEnv exampleObject exampleWorld]
    by (simp add: exampleWorld_def)
qed

text \<open>
  C3. For an actor with a recorded offline section \<open>S\<close> and a desired section that the
  ini has: if the ini has \<open>S\<close>, \<open>getSectionToActivate\<close> returns \<open>S\<close>, whatever the
  \<open>active\<close> field of the desired section says; if the ini does not have \<open>S\<close>, the
  missing section raises nothing and the result is that of the \<open>active\<close> field alone,
  the same as for an actor with no offline record.
\<close>

theorem getSectionToActivate_offline_section:
  assumes "section_exist ini sec"
    and "offlineObjects w (object_id object) = Some descriptor"
    and "offline_activeSection descriptor = Some S"
  shows "(section_exist ini S \<longrightarrow>
            fst (getSectionToActivate env object ini sec w) = Inr S)
       \<and> (\<not> section_exist ini S \<longrightarrow>
            fst (getSectionToActivate env object ini sec w) =
              (case readIniConditionList ini sec ''active'' of
                 None \<Rightarrow> Inr NIL
               | Some activeSectionCond \<Rightarrow>
                   (case pickSectionFromCondList env object (condlist activeSectionCond) of
                      None \<Rightarrow> Inl NoElseClause
                    | Some picked \<Rightarrow> Inr picked))
          \<and> fst (getSectionToActivate env object ini sec w) =
              fst (getSectionToActivate env object ini sec
                     (w\<lparr>offlineObjects := (offlineObjects w)(object_id object := None)\<rparr>)))"
  using assms
  by (simp add: getSectionToActivate_def Let_def split: option.splits)

theorem getSectionToActivate_offline_section_witness:
  "section_exist exampleIni ''logic''
   \<and> section_exist exampleIni ''camper@tower''
   \<and> fst (getSectionToActivate exampleEnv exampleObject exampleIni ''logic'' exampleWorld)
       = Inr ''camper@tower''
   \<and> \<not> section_exist exampleIni ''patrol@old''
   \<and> fst (getSectionToActivate exampleEnv exampleObject exampleIni ''logic''
            exampleWorldStale)
       = Inr ''walker@guard''"
proof -
  have h: "section_exist exampleIni ''logic''"
    by (simp add: section_exist_def exampleIni_def)
  have kept: "section_exist exampleIni ''camper@tower''"
    by (simp add: section_exist_def exampleIni_def)
  have gone: "\<not> section_exist exampleIni ''patrol@old''"
    by (simp add: section_exist_def exampleIni_def)
  have d1: "offlineObjects exampleWorld (object_id exampleObject)
              = Some \<lparr>offline_activeSection = Some ''camper@tower''\<rparr>"
    by (simp add: exampleWorld_def exampleObject_def)
  have d2: "offlineObjects exampleWorldStale (object_id exampleObject)
              = Some \<lparr>offline_activeSection = Some ''patrol@old''\<rparr>"
    by (simp add: exampleWorldStale_def exampleObject_def)
  have r1: "fst (getSectionToActivate exampleEnv exampleObject exampleIni ''logic''
                   exampleWorld) = Inr ''camper@tower''"
    using getSectionToActivate_offline_section [OF h d1, of "''camper@tower''" exampleEnv] kept
    by simp
  have r2: "fst (getSectionToActivate exampleEnv exampleObject exampleIni ''logic''
                   exampleWorldStale) = Inr ''walker@guard''"
    using getSectionToActivate_offline_section [OF h d2, of "''patrol@old''" exampleEnv] gone
    by (simp add: readIniConditionList_def exampleIni_def exampleEnv_def)
  show ?thesis using h kept gone r1 r2 by simp
qed

text \<open>
  C8. As stated, for every call with a recorded offline section, the claim fails where
  the ini has no section of the desired name: the function returns before it reads the
  offline record, and the recorded section stays.
\<close>

theorem getSectionToActivate_consumes_counterexample:
  "offlineObjects exampleWorld (object_id exampleObject)
     = Some \<lparr>offline_activeSection = Some ''camper@tower''\<rparr>
   \<and> offlineObjects
       (snd (getSectionToActivate exampleEnv exampleObject exampleIni ''sleeper@night''
               exampleWorld))
       (object_id exampleObject)
     = Some \<lparr>offline_activeSection = Some ''camper@tower''\<rparr>"
  by (simp add: getSectionToActivate_def section_exist_def exampleIni_def exampleWorld_def
        exampleObject_def)

text \<open>
  C8, amended. For every call whose desired section exists in the ini and whose actor
  has an offline record with a recorded section, the call clears the recorded section,
  whether the recorded section is returned, or is missing from the ini and the
  \<open>active\<close> field decides, or that field has no branch to pick and the call raises.
\<close>

theorem getSectionToActivate_consumes:
  assumes "section_exist ini sec"
    and "offlineObjects w (object_id object) = Some descriptor"
    and "offline_activeSection descriptor = Some S"
  shows "offlineObjects (snd (getSectionToActivate env object ini sec w)) (object_id object)
           = Some (descriptor\<lparr>offline_activeSection := None\<rparr>)"
  using assms
  by (simp add: getSectionToActivate_def Let_def split: option.splits)

theorem getSectionToActivate_consumes_witness:
  "section_exist exampleIni ''logic@bare''
   \<and> offlineObjects
       (snd (getSectionToActivate exampleEnv exampleObject exampleIni ''logic@bare''
               exampleWorldStale))
       (object_id exampleObject)
     = Some \<lparr>offline_activeSection = None\<rparr>"
proof -
  have h: "section_exist exampleIni ''logic@bare''"
    by (simp add: section_exist_def exampleIni_def)
  have d: "offlineObjects exampleWorldStale (object_id exampleObject)
             = Some \<lparr>offline_activeSection = Some ''patrol@old''\<rparr>"
    by (simp add: exampleWorldStale_def exampleObject_def)
  show ?thesis
    using h getSectionToActivate_consumes [OF h d, of "''patrol@old''" exampleEnv]
    by simp
qed

section \<open>Properties of activation\<close>

text \<open>
  C1. After every completed call of \<open>activateSchemeBySection\<close>, whatever the section
  argument and whether loading or not, the state of the actor has no active section if
  and only if it has no active scheme: the branch of the NIL sentinel clears both, and
  every other branch sets both, the active section to the target (the given section,
  or the section of the terrain job for a null argument) and the active scheme to the
  scheme derived from the target. The states of the other actors are not touched.
\<close>

theorem activateSchemeBySection_section_iff_scheme:
  assumes "fst (activateSchemeBySection env object ini sec stn isLoading w) = None"
  shows "(\<exists>state.
            objects (snd (activateSchemeBySection env object ini sec stn isLoading w))
              (object_id object) = Some state
            \<and> (activeSection state = None \<longleftrightarrow> activeScheme state = None)
            \<and> (if sec = Some NIL
               then activeSection state = None \<and> activeScheme state = None
               else (\<exists>target scheme.
                       (sec = Some target
                        \<or> sec = None \<and>
                          (\<exists>terrain job. getObjectTerrain env object = Some terrain
                             \<and> getTerrainJobByObjectId env terrain (object_id object) = Some job
                             \<and> job_section job = target))
                     \<and> getSchemeFromSection env (Some target) = Some scheme
                     \<and> activeSection state = Some target
                     \<and> activeScheme state = Some scheme)))
       \<and> (\<forall>other. other \<noteq> object_id object \<longrightarrow>
            objects (snd (activateSchemeBySection env object ini sec stn isLoading w)) other
              = objects w other)"
proof -
  obtain w' where res: "activateSchemeBySection env object ini sec stn isLoading w = (None, w')"
    using assms by (cases "activateSchemeBySection env object ini sec stn isLoading w") simp
  show ?thesis
  proof (cases "sec = Some NIL")
    case True
    from activate_nil_completed [OF res [unfolded True]] True res show ?thesis
      by auto
  next
    case False
    from activate_section_completed [OF res False]
    obtain loading st target scheme cs where
      tg: "sec = Some target
        \<or> sec = None \<and>
          (\<exists>terrain job. getObjectTerrain env object = Some terrain
             \<and> getTerrainJobByObjectId env terrain (object_id object) = Some job
             \<and> job_section job = target)"
      and sc: "getSchemeFromSection env (Some target) = Some scheme"
      and w': "w' = w\<lparr>objects := (objects w)(object_id object \<mapsto>
                  (stampActivation env loading st)
                    \<lparr>overrides := Some (getObjectConfigOverrides env ini target object),
                     activeSection := Some target, activeScheme := Some scheme\<rparr>),
                calls := calls w @ cs @
                  [SchemeActivate (object_id object) ini scheme (Some target) stn] @
                  (if schemeType st = STALKER
                   then [SendToNearestAccessibleVertex (object_id object) (level_vertex_id object)]
                   else []) @
                  [EmitSchemeEvent (object_id object) scheme ACTIVATE loading]\<rparr>"
      by blast
    define S where "S = (stampActivation env loading st)
                    \<lparr>overrides := Some (getObjectConfigOverrides env ini target object),
                     activeSection := Some target, activeScheme := Some scheme\<rparr>"
    have sn: "snd (activateSchemeBySection env object ini sec stn isLoading w) = w'"
      using res by simp
    have a1: "objects w' (object_id object) = Some S"
      by (simp add: w' S_def)
    have a2: "activeSection S = Some target" "activeScheme S = Some scheme"
      by (simp_all add: S_def)
    have a3: "(activeSection S = None) = (activeScheme S = None)"
      using a2 by simp
    have a4: "if sec = Some NIL
               then activeSection S = None \<and> activeScheme S = None
               else (\<exists>target scheme.
                       (sec = Some target
                        \<or> sec = None \<and>
                          (\<exists>terrain job. getObjectTerrain env object = Some terrain
                             \<and> getTerrainJobByObjectId env terrain (object_id object) = Some job
                             \<and> job_section job = target))
                     \<and> getSchemeFromSection env (Some target) = Some scheme
                     \<and> activeSection S = Some target
                     \<and> activeScheme S = Some scheme)"
      unfolding if_not_P [OF False] using tg sc a2 by blast
    have others: "\<forall>other. other \<noteq> object_id object \<longrightarrow> objects w' other = objects w other"
      by (simp add: w')
    show ?thesis
      unfolding sn
      apply (intro conjI)
       apply (rule exI [of _ S])
       apply (intro conjI)
         apply (rule a1)
        apply (rule a3)
       apply (rule a4)
      apply (rule others)
      done
  qed
qed

theorem activateSchemeBySection_section_iff_scheme_witness:
  "map_option (\<lambda>state. (activeSection state, activeScheme state))
     (objects exampleWorldUnbound 7) = Some (None, None)
   \<and> fst (activateSchemeBySection exampleEnv exampleObject exampleIni (Some ''camper@tower'') None
          (Some False) exampleWorldUnbound) = None
   \<and> map_option (\<lambda>state. (activeSection state, activeScheme state))
       (objects (snd (activateSchemeBySection exampleEnv exampleObject exampleIni
                        (Some ''camper@tower'') None (Some False) exampleWorldUnbound)) 7)
     = Some (Some ''camper@tower'', Some (EScheme_other ''camper''))
   \<and> map_option (\<lambda>state. (activeSection state, activeScheme state))
       (objects exampleWorld 7) = Some (Some ''walker@guard'', Some (EScheme_other ''walker''))
   \<and> fst (activateSchemeBySection exampleEnv exampleObject exampleIni (Some NIL) None
          (Some True) exampleWorld) = None
   \<and> map_option (\<lambda>state. (activeSection state, activeScheme state))
       (objects (snd (activateSchemeBySection exampleEnv exampleObject exampleIni
                        (Some NIL) None (Some True) exampleWorld)) 7)
     = Some (None, None)"
proof -
  have h1: "fst (activateSchemeBySection exampleEnv exampleObject exampleIni
                   (Some ''camper@tower'') None (Some False) exampleWorldUnbound) = None"
    by (simp add: activateSchemeBySection_def modifyState_def
          resetObjectGenericSchemesOnSectionSwitch_def schemeReset_def call_def skip_def
          fail_def withValue_def section_exist_def NIL_def exampleEnv_def exampleObject_def
          exampleIni_def exampleWorld_def exampleWorldUnbound_def exampleStateUnbound_def
          exampleState_def)
  have h2: "fst (activateSchemeBySection exampleEnv exampleObject exampleIni (Some NIL) None
                   (Some True) exampleWorld) = None"
    by (simp add: activateSchemeBySection_def modifyState_def
          resetObjectGenericSchemesOnSectionSwitch_def schemeReset_def call_def skip_def
          exampleObject_def exampleWorld_def exampleState_def)
  show ?thesis
    using activateSchemeBySection_section_iff_scheme [OF h1] activateSchemeBySection_section_iff_scheme [OF h2] h1 h2
    by (simp add: activateSchemeBySection_def modifyState_def
          resetObjectGenericSchemesOnSectionSwitch_def schemeReset_def call_def skip_def
          fail_def withValue_def section_exist_def NIL_def exampleEnv_def exampleObject_def
          exampleIni_def exampleWorld_def exampleWorldUnbound_def exampleStateUnbound_def
          exampleState_def)
qed

text \<open>
  C6. For every call of \<open>activateSchemeBySection\<close> on a registered actor, whatever
  the section and however the call ends: when the call is not a loading one, the two
  activation timestamps of the actor are those of the clocks; when it is, both are
  what they were before the call.
\<close>

theorem activateSchemeBySection_timestamps:
  assumes "objects w (object_id object) = Some state"
  shows "activationTimes (object_id object)
           (snd (activateSchemeBySection env object ini sec stn (Some loading) w))
         = (if loading then Some (activationTime state, activationGameTime state)
            else Some (time_global env, get_game_time env))"
proof (cases "sec = Some NIL")
  case True
  have "keepsTimes (object_id object)
          (run [
             modifyState (object_id object) (\<lambda>state. state\<lparr>overrides := None\<rparr>),
             resetObjectGenericSchemesOnSectionSwitch object EScheme_NIL NIL,
             modifyState (object_id object)
               (\<lambda>state. state\<lparr>activeSection := None, activeScheme := None\<rparr>)])"
    by (rule keeps_run) (simp add: keeps_modifyState keeps_appends [OF appends_reset])
  then show ?thesis
    unfolding True activate_nil_unfold
    by (simp only: run_pair_keeps stamp_times [OF assms])
next
  case False
  show ?thesis
    unfolding activate_section_unfold [OF False]
    apply (subst run_pair_keeps)
     apply (rule keeps_withValue)
     apply (simp add: keeps_fail keeps_run keeps_modifyState keeps_call keeps_registered
        keeps_vertex keeps_appends [OF appends_reset] split: option.splits)
    apply (rule stamp_times [OF assms])
    done
qed

theorem activateSchemeBySection_timestamps_witness:
  "objects exampleWorld (object_id exampleObject) = Some exampleState
   \<and> activationTimes (object_id exampleObject)
       (snd (activateSchemeBySection exampleEnv exampleObject exampleIni
               (Some ''walker@guard'') None (Some False) exampleWorld))
     = Some (5000, 6000)
   \<and> activationTimes (object_id exampleObject)
       (snd (activateSchemeBySection exampleEnv exampleObject exampleIni
               (Some ''walker@guard'') None (Some True) exampleWorld))
     = Some (100, 200)"
proof -
  have h: "objects exampleWorld (object_id exampleObject) = Some exampleState"
    by (simp add: exampleWorld_def exampleObject_def)
  show ?thesis
    using h
      activateSchemeBySection_timestamps [OF h, of exampleEnv exampleIni
        "Some ''walker@guard''" None False]
      activateSchemeBySection_timestamps [OF h, of exampleEnv exampleIni
        "Some ''walker@guard''" None True]
    by (simp add: exampleState_def exampleEnv_def)
qed



text \<open>
  C5. For every call of \<open>activateSchemeBySection\<close> with another section than the NIL
  sentinel. When the call returns, the log has grown by: the calls of the generic reset
  for the target scheme and section, which ran to completion before anything else was
  logged and made no activation and emitted no event; then the \<open>activate\<close> of the
  target scheme; then, for a stalker, the repositioning; then, last, the activation
  event of the target scheme. When the call raises, the log has grown by calls of the
  generic layer only: the scheme was not activated and no event was emitted.
\<close>

theorem activateSchemeBySection_order:
  assumes "activateSchemeBySection env object ini sec stn isLoading w = (res, w')"
    and "sec \<noteq> Some NIL"
  shows "(res = None \<longrightarrow>
            (\<exists>loading before target scheme cs.
               isLoading = Some loading
             \<and> objects w (object_id object) = Some before
             \<and> (sec = Some target
                \<or> sec = None \<and>
                  (\<exists>terrain job. getObjectTerrain env object = Some terrain
                     \<and> getTerrainJobByObjectId env terrain (object_id object) = Some job
                     \<and> job_section job = target))
             \<and> getSchemeFromSection env (Some target) = Some scheme
             \<and> resetObjectGenericSchemesOnSectionSwitch object scheme target
                  (w\<lparr>objects := (objects w)(object_id object \<mapsto>
                       (stampActivation env loading before)
                         \<lparr>overrides := Some (getObjectConfigOverrides env ini target object)\<rparr>)\<rparr>)
                 = (None,
                    w\<lparr>objects := (objects w)(object_id object \<mapsto>
                         (stampActivation env loading before)
                           \<lparr>overrides := Some (getObjectConfigOverrides env ini target object)\<rparr>),
                      calls := calls w @ cs\<rparr>)
             \<and> list_all genericCall cs
             \<and> calls w' = calls w @ cs @
                  [SchemeActivate (object_id object) ini scheme (Some target) stn] @
                  (if schemeType before = STALKER
                   then [SendToNearestAccessibleVertex (object_id object) (level_vertex_id object)]
                   else []) @
                  [EmitSchemeEvent (object_id object) scheme ACTIVATE loading]))
       \<and> (res \<noteq> None \<longrightarrow> (\<exists>cs. calls w' = calls w @ cs \<and> list_all genericCall cs))"
proof (cases res)
  case None
  from activate_section_completed [OF assms(1) [unfolded None] assms(2)]
  obtain loading st target scheme cs where
    l: "isLoading = Some loading"
    and st: "objects w (object_id object) = Some st"
    and tg: "sec = Some target
        \<or> sec = None \<and>
          (\<exists>terrain job. getObjectTerrain env object = Some terrain
             \<and> getTerrainJobByObjectId env terrain (object_id object) = Some job
             \<and> job_section job = target)"
    and sc: "getSchemeFromSection env (Some target) = Some scheme"
    and cs: "list_all genericCall cs"
    and r: "resetObjectGenericSchemesOnSectionSwitch object scheme target
          (w\<lparr>objects := (objects w)(object_id object \<mapsto>
               (stampActivation env loading st)
                 \<lparr>overrides := Some (getObjectConfigOverrides env ini target object)\<rparr>)\<rparr>)
         = (None,
            w\<lparr>objects := (objects w)(object_id object \<mapsto>
                 (stampActivation env loading st)
                   \<lparr>overrides := Some (getObjectConfigOverrides env ini target object)\<rparr>),
              calls := calls w @ cs\<rparr>)"
    and w': "w' = w\<lparr>objects := (objects w)(object_id object \<mapsto>
                  (stampActivation env loading st)
                    \<lparr>overrides := Some (getObjectConfigOverrides env ini target object),
                     activeSection := Some target, activeScheme := Some scheme\<rparr>),
                calls := calls w @ cs @
                  [SchemeActivate (object_id object) ini scheme (Some target) stn] @
                  (if schemeType st = STALKER
                   then [SendToNearestAccessibleVertex (object_id object) (level_vertex_id object)]
                   else []) @
                  [EmitSchemeEvent (object_id object) scheme ACTIVATE loading]\<rparr>"
    by blast
  have c: "calls w' = calls w @ cs @
                  [SchemeActivate (object_id object) ini scheme (Some target) stn] @
                  (if schemeType st = STALKER
                   then [SendToNearestAccessibleVertex (object_id object) (level_vertex_id object)]
                   else []) @
                  [EmitSchemeEvent (object_id object) scheme ACTIVATE loading]"
    by (simp add: w')
  from None l st tg sc cs r c show ?thesis by blast
next
  case (Some e)
  from activate_section_failed [OF assms(1) [unfolded Some] assms(2)] Some show ?thesis by simp
qed

theorem activateSchemeBySection_order_witness:
  "Some ''camper@tower'' \<noteq> Some NIL
   \<and> fst (activateSchemeBySection exampleEnv exampleObject exampleIni (Some ''camper@tower'')
          (Some ''zat_stalker_base'') (Some False) exampleWorld) = None
   \<and> calls (snd (activateSchemeBySection exampleEnv exampleObject exampleIni
                  (Some ''camper@tower'') (Some ''zat_stalker_base'') (Some False)
                  exampleWorld)) =
       [SchemeReset 7 MEET (EScheme_other ''camper'') ''camper@tower'',
        SchemeReset 7 HELP_WOUNDED (EScheme_other ''camper'') ''camper@tower'',
        SchemeReset 7 CORPSE_DETECTION (EScheme_other ''camper'') ''camper@tower'',
        SchemeReset 7 ABUSE (EScheme_other ''camper'') ''camper@tower'',
        SchemeReset 7 WOUNDED (EScheme_other ''camper'') ''camper@tower'',
        SchemeReset 7 DEATH (EScheme_other ''camper'') ''camper@tower'',
        SchemeReset 7 DANGER (EScheme_other ''camper'') ''camper@tower'',
        SchemeReset 7 GATHER_ITEMS (EScheme_other ''camper'') ''camper@tower'',
        SchemeReset 7 COMBAT_IGNORE (EScheme_other ''camper'') ''camper@tower'',
        SchemeReset 7 HEAR (EScheme_other ''camper'') ''camper@tower'',
        UpdateObjectMapSpot 7 (EScheme_other ''camper'') ''camper@tower'',
        InitializeObjectIgnoreThreshold 7 (EScheme_other ''camper'') ''camper@tower'',
        InitializeObjectInvulnerability 7,
        InitializeObjectGroup 7 exampleIni ''camper@tower'',
        InitializeObjectTakeItemsEnabledState 7 (EScheme_other ''camper'') ''camper@tower'',
        InitializeObjectCanSelectWeaponState 7 (EScheme_other ''camper'') ''camper@tower'',
        RestrictionsActivateForObject 7 ''camper@tower'',
        SchemeActivate 7 exampleIni (EScheme_other ''camper'') (Some ''camper@tower'')
          (Some ''zat_stalker_base''),
        SendToNearestAccessibleVertex 7 42,
        EmitSchemeEvent 7 (EScheme_other ''camper'') ACTIVATE False]"
proof -
  have p: "activateSchemeBySection exampleEnv exampleObject exampleIni (Some ''camper@tower'')
             (Some ''zat_stalker_base'') (Some False) exampleWorld
           = (fst (activateSchemeBySection exampleEnv exampleObject exampleIni
                     (Some ''camper@tower'') (Some ''zat_stalker_base'') (Some False)
                     exampleWorld),
              snd (activateSchemeBySection exampleEnv exampleObject exampleIni
                     (Some ''camper@tower'') (Some ''zat_stalker_base'') (Some False)
                     exampleWorld))"
    by simp
  have n: "Some ''camper@tower'' \<noteq> Some NIL"
    by (simp add: NIL_def)
  show ?thesis
    using activateSchemeBySection_order [OF p n]
    by (simp add: activateSchemeBySection_def modifyState_def
          resetObjectGenericSchemesOnSectionSwitch_def schemeReset_def call_def skip_def
          fail_def withValue_def section_exist_def NIL_def exampleEnv_def exampleObject_def
          exampleIni_def exampleWorld_def exampleState_def)
qed



text \<open>
  C4. As stated, the claim fails: for a stalker whose section has no \<open>active\<close> field and
  who is in no smart terrain, \<open>getSectionToActivate\<close> returns the NIL sentinel, and
  activating that result returns normally: the terrain is not consulted.
\<close>

theorem terrain_job_fallback_counterexample:
  "schemeType exampleState = STALKER
   \<and> objects exampleWorldOnline (object_id exampleObject) = Some exampleState
   \<and> section_exist exampleIni ''smart_terrain_job_guard''
   \<and> readIniConditionList exampleIni ''smart_terrain_job_guard'' ''active'' = None
   \<and> getObjectTerrain exampleEnv exampleObject = None
   \<and> getSectionToActivate exampleEnv exampleObject exampleIni ''smart_terrain_job_guard''
       exampleWorldOnline = (Inr NIL, exampleWorldOnline)
   \<and> fst (activateSchemeBySection exampleEnv exampleObject exampleIni (Some NIL) None
          (Some False) exampleWorldOnline) = None"
  by (simp add: getSectionToActivate_def readIniConditionList_def section_exist_def
        activateSchemeBySection_def modifyState_def
        resetObjectGenericSchemesOnSectionSwitch_def schemeReset_def call_def skip_def
        exampleEnv_def exampleObject_def exampleIni_def exampleWorld_def exampleWorldOnline_def
        exampleState_def)

text \<open>
  C4, amended. For an actor of any archetype whose section exists and has no \<open>active\<close>
  field, and whose offline record offers no section of the ini, \<open>getSectionToActivate\<close>
  returns the NIL sentinel; \<open>activateSchemeBySection\<close> on a given section, the NIL
  sentinel or any other, does not depend on the terrain services. The terrain job
  supplies the section only when \<open>activateSchemeBySection\<close> is called with a null
  section: then a call for an actor in
  no smart terrain raises \<open>NotAssignedToTerrain\<close> (for a registered actor, or when
  loading), and a call for an actor whose terrain grants a job is the call with the
  section of that job.
\<close>

theorem terrain_job_fallback:
  "((section_exist ini sec
      \<and> readIniConditionList ini sec ''active'' = None
      \<and> (\<forall>S. Option.bind (offlineObjects w (object_id object)) offline_activeSection = Some S
               \<longrightarrow> \<not> section_exist ini S))
     \<longrightarrow> fst (getSectionToActivate env object ini sec w) = Inr NIL)
   \<and> activateSchemeBySection
        (env\<lparr>getObjectTerrain := terrainOf, getTerrainJobByObjectId := jobOf\<rparr>)
        object ini (Some given) stn isLoading w
      = activateSchemeBySection env object ini (Some given) stn isLoading w
   \<and> ((getObjectTerrain env object = None \<and> (loading \<or> objects w (object_id object) \<noteq> None))
     \<longrightarrow> fst (activateSchemeBySection env object ini None stn (Some loading) w)
           = Some NotAssignedToTerrain)
   \<and> ((getObjectTerrain env object = Some terrain
      \<and> getTerrainJobByObjectId env terrain (object_id object) = Some job
      \<and> job_section job \<noteq> NIL)
     \<longrightarrow> activateSchemeBySection env object ini None stn isLoading w
           = activateSchemeBySection env object ini (Some (job_section job)) stn isLoading w)"
proof (intro conjI impI)
  assume "section_exist ini sec
      \<and> readIniConditionList ini sec ''active'' = None
      \<and> (\<forall>S. Option.bind (offlineObjects w (object_id object)) offline_activeSection = Some S
               \<longrightarrow> \<not> section_exist ini S)"
  then have e: "section_exist ini sec" and a: "readIniConditionList ini sec ''active'' = None"
    and s: "\<And>S. Option.bind (offlineObjects w (object_id object)) offline_activeSection = Some S
               \<Longrightarrow> \<not> section_exist ini S"
    by blast+
  show "fst (getSectionToActivate env object ini sec w) = Inr NIL"
  proof (cases "offlineObjects w (object_id object)")
    case None
    with e a show ?thesis by (simp add: getSectionToActivate_def)
  next
    case (Some descriptor)
    show ?thesis
    proof (cases "offline_activeSection descriptor")
      case None
      with Some e a show ?thesis by (simp add: getSectionToActivate_def)
    next
      case retry: (Some S)
      with Some s [of S] have "\<not> section_exist ini S" by simp
      with Some retry e a show ?thesis by (simp add: getSectionToActivate_def)
    qed
  qed
next
  show "activateSchemeBySection
        (env\<lparr>getObjectTerrain := terrainOf, getTerrainJobByObjectId := jobOf\<rparr>)
        object ini (Some given) stn isLoading w
      = activateSchemeBySection env object ini (Some given) stn isLoading w"
  proof (cases isLoading)
    case None
    then show ?thesis by (simp add: activateSchemeBySection_def)
  next
    case (Some loading)
    show ?thesis
    proof (cases "given = NIL")
      case True
      then show ?thesis unfolding Some by (simp add: activateSchemeBySection_def)
    next
      case False
      then have n: "Some given \<noteq> Some NIL" by simp
      show ?thesis
        unfolding Some activate_section_unfold [OF n]
        by (simp del: run.simps cong: option.case_cong if_cong)
    qed
  qed
next
  assume a: "getObjectTerrain env object = None \<and> (loading \<or> objects w (object_id object) \<noteq> None)"
  have n: "(None :: TSection option) \<noteq> Some NIL" by simp
  from a show "fst (activateSchemeBySection env object ini None stn (Some loading) w)
           = Some NotAssignedToTerrain"
    unfolding activate_section_unfold [OF n]
    by (cases "objects w (object_id object)")
      (auto simp: modifyState_def skip_def withValue_def)
next
  assume a: "getObjectTerrain env object = Some terrain
      \<and> getTerrainJobByObjectId env terrain (object_id object) = Some job
      \<and> job_section job \<noteq> NIL"
  have n1: "(None :: TSection option) \<noteq> Some NIL" by simp
  have n2: "Some (job_section job) \<noteq> Some NIL" using a by simp
  show "activateSchemeBySection env object ini None stn isLoading w
           = activateSchemeBySection env object ini (Some (job_section job)) stn isLoading w"
  proof (cases isLoading)
    case None
    then show ?thesis by (simp add: activateSchemeBySection_def)
  next
    case (Some loading)
    show ?thesis
      unfolding Some activate_section_unfold [OF n1] activate_section_unfold [OF n2]
      using a by simp
  qed
qed

theorem terrain_job_fallback_witness:
  "section_exist exampleIni ''smart_terrain_job_guard''
   \<and> readIniConditionList exampleIni ''smart_terrain_job_guard'' ''active'' = None
   \<and> fst (getSectionToActivate exampleEnv exampleObject exampleIni ''smart_terrain_job_guard''
            exampleWorldOnline) = Inr NIL
   \<and> activateSchemeBySection exampleEnvTerrain exampleObject exampleIni (Some NIL) None
       (Some False) exampleWorld
     = activateSchemeBySection exampleEnv exampleObject exampleIni (Some NIL) None
         (Some False) exampleWorld
   \<and> activateSchemeBySection exampleEnvTerrain exampleObject exampleIni
       (Some ''walker@guard'') None (Some False) exampleWorld
     = activateSchemeBySection exampleEnv exampleObject exampleIni
         (Some ''walker@guard'') None (Some False) exampleWorld
   \<and> getObjectTerrain exampleEnv exampleObject = None
   \<and> objects exampleWorld (object_id exampleObject) \<noteq> None
   \<and> fst (activateSchemeBySection exampleEnv exampleObject exampleIni None None (Some False)
            exampleWorld) = Some NotAssignedToTerrain
   \<and> getObjectTerrain exampleEnvTerrain exampleObject = Some ''zat_stalker_base''
   \<and> getTerrainJobByObjectId exampleEnvTerrain ''zat_stalker_base'' (object_id exampleObject)
       = Some \<lparr>job_section = ''camper@tower''\<rparr>
   \<and> activateSchemeBySection exampleEnvTerrain exampleObject exampleIni None None (Some False)
       exampleWorld
     = activateSchemeBySection exampleEnvTerrain exampleObject exampleIni
         (Some ''camper@tower'') None (Some False) exampleWorld"
proof -
  have e: "section_exist exampleIni ''smart_terrain_job_guard''"
    by (simp add: section_exist_def exampleIni_def)
  have a: "readIniConditionList exampleIni ''smart_terrain_job_guard'' ''active'' = None"
    by (simp add: readIniConditionList_def exampleIni_def)
  have s: "\<forall>S. Option.bind (offlineObjects exampleWorldOnline (object_id exampleObject))
                  offline_activeSection = Some S \<longrightarrow> \<not> section_exist exampleIni S"
    by (simp add: exampleWorldOnline_def)
  have t: "getObjectTerrain exampleEnv exampleObject = None"
    by (simp add: exampleEnv_def)
  have o: "objects exampleWorld (object_id exampleObject) \<noteq> None"
    by (simp add: exampleWorld_def exampleObject_def)
  have j: "getObjectTerrain exampleEnvTerrain exampleObject = Some ''zat_stalker_base''"
    "getTerrainJobByObjectId exampleEnvTerrain ''zat_stalker_base'' (object_id exampleObject)
       = Some \<lparr>job_section = ''camper@tower''\<rparr>"
    "job_section \<lparr>job_section = ''camper@tower''\<rparr> \<noteq> NIL"
    by (simp_all add: exampleEnvTerrain_def NIL_def)
  have r1: "fst (getSectionToActivate exampleEnv exampleObject exampleIni
                   ''smart_terrain_job_guard'' exampleWorldOnline) = Inr NIL"
    using terrain_job_fallback [where ini = exampleIni and sec = "''smart_terrain_job_guard''"
        and w = exampleWorldOnline and object = exampleObject and env = exampleEnv] e a s
    by blast
  have r2: "activateSchemeBySection exampleEnvTerrain exampleObject exampleIni (Some NIL) None
              (Some False) exampleWorld
            = activateSchemeBySection exampleEnv exampleObject exampleIni (Some NIL) None
                (Some False) exampleWorld"
    unfolding exampleEnvTerrain_def
    using terrain_job_fallback [where ini = exampleIni and w = exampleWorld
        and object = exampleObject and env = exampleEnv and given = NIL and stn = None
        and isLoading = "Some False"
        and terrainOf = "\<lambda>_. Some ''zat_stalker_base''"
        and jobOf = "\<lambda>_ _. Some \<lparr>job_section = ''camper@tower''\<rparr>"]
    by blast
  have r2': "activateSchemeBySection exampleEnvTerrain exampleObject exampleIni
               (Some ''walker@guard'') None (Some False) exampleWorld
             = activateSchemeBySection exampleEnv exampleObject exampleIni
                 (Some ''walker@guard'') None (Some False) exampleWorld"
    unfolding exampleEnvTerrain_def
    using terrain_job_fallback [where ini = exampleIni and w = exampleWorld
        and object = exampleObject and env = exampleEnv and given = "''walker@guard''"
        and stn = None and isLoading = "Some False"
        and terrainOf = "\<lambda>_. Some ''zat_stalker_base''"
        and jobOf = "\<lambda>_ _. Some \<lparr>job_section = ''camper@tower''\<rparr>"]
    by blast
  have r3: "fst (activateSchemeBySection exampleEnv exampleObject exampleIni None None
                   (Some False) exampleWorld) = Some NotAssignedToTerrain"
    using terrain_job_fallback [where ini = exampleIni and w = exampleWorld
        and object = exampleObject and env = exampleEnv and stn = None and loading = False] t o
    by blast
  have r4: "activateSchemeBySection exampleEnvTerrain exampleObject exampleIni None None
              (Some False) exampleWorld
            = activateSchemeBySection exampleEnvTerrain exampleObject exampleIni
                (Some (job_section \<lparr>job_section = ''camper@tower''\<rparr>)) None (Some False)
                exampleWorld"
    using terrain_job_fallback [where ini = exampleIni and w = exampleWorld
        and object = exampleObject and env = exampleEnvTerrain and stn = None
        and isLoading = "Some False" and terrain = "''zat_stalker_base''"
        and job = "\<lparr>job_section = ''camper@tower''\<rparr>"] j
    by blast
  from e a r1 r2 r2' t o r3 j(1,2) r4 show ?thesis by simp
qed

section \<open>Properties of the base-scheme enable step\<close>

text \<open>
  C9. As stated, the claim fails: for a stalker whose logic section configures none of
  \<open>on_combat\<close>, \<open>wounded\<close>, \<open>meet\<close> and \<open>on_death\<close>, \<open>enableObjectBaseSchemes\<close> raises
  nothing; it reads each of the four as a field that is not required and activates the
  scheme with an absent section.
\<close>

theorem enableObjectBaseSchemes_stalker_counterexample:
  "readIniString exampleIni ''logic@bare'' ''on_combat'' False = Inr None
   \<and> readIniString exampleIni ''logic@bare'' ''wounded'' False = Inr None
   \<and> readIniString exampleIni ''logic@bare'' ''meet'' False = Inr None
   \<and> readIniString exampleIni ''logic@bare'' ''on_death'' False = Inr None
   \<and> enableObjectBaseSchemes exampleObject exampleIni STALKER ''logic@bare'' exampleWorld =
       (None, exampleWorld\<lparr>calls :=
          [SchemeActivate 7 exampleIni DANGER (Some ''danger'') None,
           SchemeActivate 7 exampleIni GATHER_ITEMS (Some ''gather_items'') None,
           SchemeActivate 7 exampleIni COMBAT None None,
           InitializeObjectInvulnerability 7,
           SchemeActivate 7 exampleIni WOUNDED None None,
           SchemeActivate 7 exampleIni ABUSE (Some ''logic@bare'') None,
           SchemeActivate 7 exampleIni HELP_WOUNDED None None,
           SchemeActivate 7 exampleIni CORPSE_DETECTION None None,
           SchemeActivate 7 exampleIni MEET None None,
           SchemeActivate 7 exampleIni DEATH None None,
           SchemeActivate 7 exampleIni COMBAT_IGNORE None None,
           SchemeActivate 7 exampleIni REACH_TASK None None]\<rparr>)"
  by (simp add: enableObjectBaseSchemes_def readIniString_def withValue_def schemeActivate_def
        call_def skip_def exampleIni_def exampleWorld_def exampleObject_def)

text \<open>
  C9, amended. In \<open>enableObjectBaseSchemes\<close> for a stalker, with every scheme
  registered, no missing field is fatal. Where \<open>info\<close> or \<open>on_hit\<close> is missing, the
  initialisation of the info, respectively the activation of the hit scheme, is
  skipped; where \<open>on_combat\<close>, \<open>wounded\<close>, \<open>meet\<close> or \<open>on_death\<close> is missing, the scheme
  is activated all the same, with an absent section. The calls made are exactly those
  listed, in this order.
\<close>

theorem enableObjectBaseSchemes_stalker:
  assumes "\<forall>scheme. schemes w scheme"
  shows "enableObjectBaseSchemes object ini STALKER logicsSection w =
     (None, w\<lparr>calls := calls w @
        [SchemeActivate (object_id object) ini DANGER (Some ''danger'') None,
         SchemeActivate (object_id object) ini GATHER_ITEMS (Some ''gather_items'') None,
         SchemeActivate (object_id object) ini COMBAT
           (Option.bind (map_of ini logicsSection) (\<lambda>fields. map_of fields ''on_combat'')) None,
         InitializeObjectInvulnerability (object_id object)] @
        (case Option.bind (map_of ini logicsSection) (\<lambda>fields. map_of fields ''info'') of
           Some info \<Rightarrow> [InitializeObjectInfo (object_id object) ini info]
         | None \<Rightarrow> []) @
        (case Option.bind (map_of ini logicsSection) (\<lambda>fields. map_of fields ''on_hit'') of
           Some hit \<Rightarrow> [SchemeActivate (object_id object) ini HIT (Some hit) None]
         | None \<Rightarrow> []) @
        [SchemeActivate (object_id object) ini WOUNDED
           (Option.bind (map_of ini logicsSection) (\<lambda>fields. map_of fields ''wounded'')) None,
         SchemeActivate (object_id object) ini ABUSE (Some logicsSection) None,
         SchemeActivate (object_id object) ini HELP_WOUNDED None None,
         SchemeActivate (object_id object) ini CORPSE_DETECTION None None,
         SchemeActivate (object_id object) ini MEET
           (Option.bind (map_of ini logicsSection) (\<lambda>fields. map_of fields ''meet'')) None,
         SchemeActivate (object_id object) ini DEATH
           (Option.bind (map_of ini logicsSection) (\<lambda>fields. map_of fields ''on_death'')) None,
         SchemeActivate (object_id object) ini COMBAT_IGNORE None None,
         SchemeActivate (object_id object) ini REACH_TASK None None]\<rparr>)"
  using assms
  by (simp add: enableObjectBaseSchemes_def readIniString_def withValue_def schemeActivate_def
        call_def skip_def split: option.splits)

theorem enableObjectBaseSchemes_stalker_witness:
  "(\<forall>scheme. schemes exampleWorld scheme)
   \<and> enableObjectBaseSchemes exampleObject exampleIni STALKER ''walker@guard'' exampleWorld =
       (None, exampleWorld\<lparr>calls :=
          [SchemeActivate 7 exampleIni DANGER (Some ''danger'') None,
           SchemeActivate 7 exampleIni GATHER_ITEMS (Some ''gather_items'') None,
           SchemeActivate 7 exampleIni COMBAT None None,
           InitializeObjectInvulnerability 7,
           SchemeActivate 7 exampleIni HIT (Some ''hit@guard'') None,
           SchemeActivate 7 exampleIni WOUNDED None None,
           SchemeActivate 7 exampleIni ABUSE (Some ''walker@guard'') None,
           SchemeActivate 7 exampleIni HELP_WOUNDED None None,
           SchemeActivate 7 exampleIni CORPSE_DETECTION None None,
           SchemeActivate 7 exampleIni MEET None None,
           SchemeActivate 7 exampleIni DEATH None None,
           SchemeActivate 7 exampleIni COMBAT_IGNORE None None,
           SchemeActivate 7 exampleIni REACH_TASK None None]\<rparr>)"
proof -
  have h: "\<forall>scheme. schemes exampleWorld scheme"
    by (simp add: exampleWorld_def)
  have c: "calls exampleWorld = []"
    by (simp add: exampleWorld_def)
  have i: "map_of exampleIni ''walker@guard'' = Some [(''on_hit'', ''hit@guard'')]"
    by (simp add: exampleIni_def)
  have o: "object_id exampleObject = 7"
    by (simp add: exampleObject_def)
  show ?thesis
    using h
      enableObjectBaseSchemes_stalker [OF h, of exampleObject exampleIni "''walker@guard''"]
    by (simp add: c i o)
qed

end
